theory Spec2Isabelle
  imports Complex_Main "HOL-Library.Sublist"
begin

section \<open>Values exchanged with the speech provider\<close>

text \<open>
  The voice directory arrives as JSON and \<^verbatim>\<open>get_voices\<close> copies fields of it into
  its result without checking their type, so a voice's fields hold arbitrary decoded JSON
  values. A Python \<^verbatim>\<open>dict\<close> is an association list read with \<open>map_of\<close>; a
  JSON number is an integer here, truthiness (non-zero) being all the code asks of it.
\<close>

datatype json =
    JNull
  | JBool bool
  | JNum int
  | JStr string
  | JArr "json list"
  | JObj "(string \<times> json) list"

text \<open>Python truthiness, as the operator \<^verbatim>\<open>or\<close> and \<^verbatim>\<open>if not x\<close> test it.\<close>

fun truthy :: "json \<Rightarrow> bool" where
  "truthy JNull = False"
| "truthy (JBool b) = b"
| "truthy (JNum n) = (n \<noteq> 0)"
| "truthy (JStr s) = (s \<noteq> [])"
| "truthy (JArr xs) = (xs \<noteq> [])"
| "truthy (JObj kvs) = (kvs \<noteq> [])"

text \<open>\<^verbatim>\<open>a or b\<close>: the first operand when it is truthy, else the second.\<close>

definition py_or :: "json \<Rightarrow> json \<Rightarrow> json" where
  "py_or a b = (if truthy a then a else b)"

text \<open>\<^verbatim>\<open>d.get(k)\<close> on a dict: the value, or \<^verbatim>\<open>None\<close> when the key is absent.\<close>

definition dict_get :: "(string \<times> json) list \<Rightarrow> string \<Rightarrow> json" where
  "dict_get kvs k = (case map_of kvs k of None \<Rightarrow> JNull | Some v \<Rightarrow> v)"

text \<open>
  A voice as \<^verbatim>\<open>get_voices\<close> builds it: a dict with exactly the keys
  \<^verbatim>\<open>id\<close>, \<^verbatim>\<open>name\<close> and \<^verbatim>\<open>labels\<close>.
\<close>

record voice =
  id' :: json
  name :: json
  labels :: json

text \<open>
  The exceptions that leave the modelled functions. The message of a service error is one
  of three fixed literals of \<^verbatim>\<open>voice.py\<close> (Russian text in the source):
  \<open>Empty_text\<close> for line 124, \<open>Text_too_long\<close> for line 126 and
  \<open>Synthesis_failed\<close> for line 177.
\<close>

datatype message = Empty_text | Text_too_long | Synthesis_failed

datatype error =
    InvalidInputError message
  | VoiceServiceError message
  | JSONDecodeError
  | AttributeError
  | TypeError
  | ZeroDivisionError

section \<open>Pagination (\<^verbatim>\<open>main.py\<close>)\<close>

text \<open>
  \<^verbatim>\<open>xs[start:stop]\<close> with integer bounds: a negative bound counts from the end,
  and both bounds are clamped to \<open>0 .. len(xs)\<close>.
\<close>

definition slice_index :: "int \<Rightarrow> int \<Rightarrow> nat" where
  "slice_index n i = nat (if i < 0 then max 0 (i + n) else min i n)"

definition py_slice :: "'a list \<Rightarrow> int \<Rightarrow> int \<Rightarrow> 'a list" where
  "py_slice xs start stop =
     (let n = int (length xs)
      in drop (slice_index n start) (take (slice_index n stop) xs))"

text \<open>
  An inline button: its caption and its callback payload. The payload is kept structured:
  \<open>Pick v\<close> is the f-string \<^verbatim>\<open>pick:{v}\<close>, \<open>Page n\<close> is
  \<^verbatim>\<open>page:{n}\<close> and \<open>Refresh\<close> is the literal \<^verbatim>\<open>refresh\<close>. The three
  navigation captions are fixed (Russian) literals of lines 39, 41 and 42.
\<close>

datatype caption = Caption json | Back_caption | Next_caption | Refresh_caption

datatype callback = Pick json | Page int | Refresh

datatype button = InlineKeyboardButton (caption_of: caption) (callback_data: callback)

text \<open>Lines 28 to 30: the voices shown on a page.\<close>

definition page_voices :: "voice list \<Rightarrow> int \<Rightarrow> int \<Rightarrow> voice list" where
  "page_voices voices page page_size =
     (let start = page * page_size;
          end' = start + page_size
      in py_slice voices start end')"

text \<open>Lines 33 and 34: the row of one voice.\<close>

definition voice_row :: "voice \<Rightarrow> button list" where
  "voice_row v = [InlineKeyboardButton (Caption (py_or (name v) (id' v))) (Pick (id' v))]"

text \<open>Line 36. Python's \<^verbatim>\<open>//\<close> rounds down, as \<open>div\<close> on \<open>int\<close> does.\<close>

definition total_pages_of :: "voice list \<Rightarrow> int \<Rightarrow> int" where
  "total_pages_of voices page_size =
     max 1 ((int (length voices) + page_size - 1) div page_size)"

text \<open>Lines 37 to 42: the navigation row.\<close>

definition nav_row :: "int \<Rightarrow> int \<Rightarrow> button list" where
  "nav_row page total_pages =
     (if page > 0 then [InlineKeyboardButton Back_caption (Page (page - 1))] else []) @
     (if page + 1 < total_pages then [InlineKeyboardButton Next_caption (Page (page + 1))] else []) @
     [InlineKeyboardButton Refresh_caption Refresh]"

text \<open>
  \<^verbatim>\<open>_paginate_buttons\<close>. The slice and the voices' rows are built first; the
  division of line 36 raises when \<open>page_size\<close> is zero.
\<close>

definition paginate_buttons ::
  "voice list \<Rightarrow> int \<Rightarrow> int \<Rightarrow> error + (button list list \<times> int)" where
  "paginate_buttons voices page page_size =
     (let buttons = map voice_row (page_voices voices page page_size)
      in if page_size = 0 then Inl ZeroDivisionError
         else let total_pages = total_pages_of voices page_size
              in Inr (buttons @ [nav_row page total_pages], total_pages))"

section \<open>The speech service client (\<^verbatim>\<open>voice.py\<close>)\<close>

text \<open>
  The settings the client reads (\<^verbatim>\<open>config.py\<close>); the configuration has loaded.
\<close>

record settings =
  elevenlabs_api_key :: string
  default_voice_id :: string

text \<open>
  \<^verbatim>\<open>_VoicesCache\<close>. The field \<^verbatim>\<open>value\<close> is \<open>cvalue\<close> here. Times are real
  numbers of seconds.
\<close>

record voices_cache =
  cvalue :: "voice list option"
  ts :: real
  ttl :: real

text \<open>The module's single instance, \<^verbatim>\<open>_voices_cache = _VoicesCache()\<close>.\<close>

definition voices_cache0 :: voices_cache where
  "voices_cache0 = \<lparr>cvalue = None, ts = 0.0, ttl = 600.0\<rparr>"

text \<open>
  What one HTTP exchange comes back with: a response (its status code and its body), or an
  \<^verbatim>\<open>httpx.HTTPError\<close> raised by the transport (time-out, connection failure).
  The body of a voice directory response is \<open>Some\<close> of the decoded JSON, or \<open>None\<close>
  when it is not JSON; the body of a synthesis response is its content.

  The network is an oracle: what the \<open>n\<close>-th request of the run is answered with, and
  how many seconds that exchange takes.
\<close>

datatype 'b reply = Response int 'b | TransportError

type_synonym 'b network = "nat \<Rightarrow> 'b reply \<times> real"

text \<open>
  The effects of the client that are observable from outside, in their order: sleeping
  and sending a request (the voice directory read, or a synthesis request with its voice
  id and \<^verbatim>\<open>Accept\<close> header). Logging is left out, and with it the attempt number of
  \<^verbatim>\<open>enumerate\<close> and \<^verbatim>\<open>last_err\<close>, which only the log lines read.
\<close>

datatype request = Get_voices | Post_tts string string

datatype event = Slept real | Sent request

record world =
  cache :: voices_cache
  clock :: real
  sent :: nat
  trace :: "event list"

definition time_sleep :: "real \<Rightarrow> world \<Rightarrow> world" where
  "time_sleep d w = w\<lparr>clock := clock w + d, trace := trace w @ [Slept d]\<rparr>"

definition http_request :: "'b network \<Rightarrow> request \<Rightarrow> world \<Rightarrow> 'b reply \<times> world" where
  "http_request net req w =
     (case net (sent w) of
        (rep, took) \<Rightarrow>
          (rep, w\<lparr>clock := clock w + took, sent := Suc (sent w), trace := trace w @ [Sent req]\<rparr>))"

text \<open>\<^verbatim>\<open>_VoicesCache.get\<close> and \<^verbatim>\<open>_VoicesCache.set\<close>; \<^verbatim>\<open>time.time()\<close> reads the clock.\<close>

definition cache_get :: "world \<Rightarrow> voice list option" where
  "cache_get w =
     (if cvalue (cache w) = None then None
      else if clock w - ts (cache w) > ttl (cache w) then None
      else cvalue (cache w))"

definition cache_set :: "voice list \<Rightarrow> world \<Rightarrow> world" where
  "cache_set v w = w\<lparr>cache := (cache w)\<lparr>cvalue := Some v, ts := clock w\<rparr>\<rparr>"

text \<open>
  \<^verbatim>\<open>resp.raise_for_status()\<close> of httpx raises \<^verbatim>\<open>HTTPStatusError\<close> unless the
  status is a 2xx.
\<close>

definition is_success :: "int \<Rightarrow> bool" where
  "is_success status = (200 \<le> status \<and> status < 300)"

definition backoffs :: "real list" where
  "backoffs = [0.5, 1.0, 2.0]"

text \<open>How a retry loop is left: by \<^verbatim>\<open>return\<close>, by an exception that no handler
  of the loop catches, or to the statements after it (by \<^verbatim>\<open>break\<close> or at the end
  of the schedule).\<close>

datatype 'a loop_exit = Returned 'a | Raised error | Fell_through

subsection \<open>\<^verbatim>\<open>get_voices\<close>\<close>

text \<open>Lines 94 and 116: the entry built from the default voice id.\<close>

definition fallback_voice :: "settings \<Rightarrow> voice" where
  "fallback_voice st =
     \<lparr>id' = JStr (default_voice_id st), name = JStr ''Default'', labels = JObj []\<rparr>"

text \<open>Lines 87 to 91. \<^verbatim>\<open>v.get\<close> exists on a dict only.\<close>

fun normalize_entry :: "json \<Rightarrow> error + voice" where
  "normalize_entry (JObj v) =
     Inr \<lparr>id' = py_or (dict_get v ''voice_id'') (dict_get v ''id''),
          name = py_or (dict_get v ''name'') (JStr ''Unnamed''),
          labels = py_or (dict_get v ''labels'') JNull\<rparr>"
| "normalize_entry _ = Inl AttributeError"

text \<open>The loop of lines 86 to 91 over the elements of \<^verbatim>\<open>items\<close>.\<close>

fun normalize_items :: "json list \<Rightarrow> error + voice list" where
  "normalize_items [] = Inr []"
| "normalize_items (v # vs) =
     (case normalize_entry v of
        Inl e \<Rightarrow> Inl e
      | Inr x \<Rightarrow> (case normalize_items vs of Inl e \<Rightarrow> Inl e | Inr xs \<Rightarrow> Inr (x # xs)))"

text \<open>
  What \<^verbatim>\<open>for v in items\<close> iterates over: the elements of a list, the keys of a
  dict, the characters of a string; anything else is not iterable.
\<close>

fun iterate :: "json \<Rightarrow> error + json list" where
  "iterate (JArr xs) = Inr xs"
| "iterate (JObj kvs) = Inr (map (\<lambda>kv. JStr (fst kv)) kvs)"
| "iterate (JStr s) = Inr (map (\<lambda>c. JStr [c]) s)"
| "iterate _ = Inl TypeError"

text \<open>Lines 84 to 94, on the decoded body: \<^verbatim>\<open>data.get\<close> exists on a dict only.\<close>

definition voices_of_data :: "settings \<Rightarrow> json \<Rightarrow> error + voice list" where
  "voices_of_data st data =
     (case data of
        JObj d \<Rightarrow>
          (let items = py_or (py_or (dict_get d ''voices'') (dict_get d ''data'')) (JArr [])
           in case iterate items of
                Inl e \<Rightarrow> Inl e
              | Inr vs \<Rightarrow>
                  (case normalize_items vs of
                     Inl e \<Rightarrow> Inl e
                   | Inr voices \<Rightarrow> Inr (if voices = [] then [fallback_voice st] else voices)))
      | _ \<Rightarrow> Inl AttributeError)"

text \<open>
  The loop of lines 73 to 112, over the delays still to come. A 429 and a transport error
  go on to the next attempt, as a 5xx does; any other status that is not a 2xx breaks out
  of the loop (the response of an \<^verbatim>\<open>HTTPStatusError\<close> is an object without
  \<^verbatim>\<open>__bool__\<close>, hence truthy, so \<open>status\<close> is its status code). An exception of
  \<^verbatim>\<open>resp.json()\<close> or of the normalisation is none of the three handlers' and leaves
  \<^verbatim>\<open>get_voices\<close>.
\<close>

fun get_voices_loop ::
  "json option network \<Rightarrow> settings \<Rightarrow> real list \<Rightarrow> world \<Rightarrow> voice list loop_exit \<times> world" where
  "get_voices_loop net st [] w = (Fell_through, w)"
| "get_voices_loop net st (backoff # rest) w =
     (case http_request net Get_voices (if backoff \<noteq> 0 then time_sleep backoff w else w) of
        (TransportError, w') \<Rightarrow> get_voices_loop net st rest w'
      | (Response status body, w') \<Rightarrow>
          if status = 429 then get_voices_loop net st rest w'
          else if \<not> is_success status then
            (if 500 \<le> status \<and> status < 600 then get_voices_loop net st rest w'
             else (Fell_through, w'))
          else
            (case body of
               None \<Rightarrow> (Raised JSONDecodeError, w')
             | Some data \<Rightarrow>
                 (case voices_of_data st data of
                    Inl e \<Rightarrow> (Raised e, w')
                  | Inr voices \<Rightarrow> (Returned voices, cache_set voices w'))))"

definition get_voices ::
  "json option network \<Rightarrow> settings \<Rightarrow> world \<Rightarrow> (error + voice list) \<times> world" where
  "get_voices net st w =
     (case cache_get w of
        Some cached \<Rightarrow> (Inr cached, w)
      | None \<Rightarrow>
          (case get_voices_loop net st (0.0 # backoffs) w of
             (Returned voices, w') \<Rightarrow> (Inr voices, w')
           | (Raised e, w') \<Rightarrow> (Inl e, w')
           | (Fell_through, w') \<Rightarrow> (Inr [fallback_voice st], w')))"

subsection \<open>\<^verbatim>\<open>synthesize_speech\<close>\<close>

text \<open>The loop of lines 146 to 174; \<open>req\<close> is the request of lines 151 and 152.\<close>

fun synthesize_loop ::
  "'b network \<Rightarrow> request \<Rightarrow> real list \<Rightarrow> world \<Rightarrow> 'b loop_exit \<times> world" where
  "synthesize_loop net req [] w = (Fell_through, w)"
| "synthesize_loop net req (backoff # rest) w =
     (case http_request net req (if backoff \<noteq> 0 then time_sleep backoff w else w) of
        (TransportError, w') \<Rightarrow> synthesize_loop net req rest w'
      | (Response status content, w') \<Rightarrow>
          if status = 429 then synthesize_loop net req rest w'
          else if \<not> is_success status then
            (if 500 \<le> status \<and> status < 600 then synthesize_loop net req rest w'
             else (Fell_through, w'))
          else (Returned content, w'))"

text \<open>
  The text is a sequence of characters of any kind: only its emptiness and its length
  are read.
\<close>

definition synthesize_speech ::
  "'b network \<Rightarrow> 'c list \<Rightarrow> string \<Rightarrow> string \<Rightarrow> world \<Rightarrow> (error + 'b) \<times> world" where
  "synthesize_speech net text voice_id fmt w =
     (if text = [] then (Inl (InvalidInputError Empty_text), w)
      else if length text > 5000 then (Inl (InvalidInputError Text_too_long), w)
      else
        (let accept = (if fmt = ''mp3'' then ''audio/mpeg'' else ''application/json'')
         in case synthesize_loop net (Post_tts voice_id accept) (0.0 # backoffs) w of
              (Returned content, w') \<Rightarrow> (Inr content, w')
            | (Raised e, w') \<Rightarrow> (Inl e, w')
            | (Fell_through, w') \<Rightarrow> (Inl (VoiceServiceError Synthesis_failed), w')))"

section \<open>The page button (\<^verbatim>\<open>main.py\<close>)\<close>

text \<open>
  Lines 74 to 78 of \<^verbatim>\<open>on_callback\<close>, the branch of a payload \<^verbatim>\<open>page:<int>\<close>: the
  integer of the payload goes to \<^verbatim>\<open>_paginate_buttons\<close> as it is, with the default
  page size. The result is the keyboard handed to the transport.
\<close>

definition on_callback_page ::
  "json option network \<Rightarrow> settings \<Rightarrow> int \<Rightarrow> world \<Rightarrow> (error + button list list) \<times> world" where
  "on_callback_page net st page w =
     (case get_voices net st w of
        (Inl e, w') \<Rightarrow> (Inl e, w')
      | (Inr voices, w') \<Rightarrow>
          (case paginate_buttons voices page 8 of
             Inl e \<Rightarrow> (Inl e, w')
           | Inr (buttons, total_pages) \<Rightarrow> (Inr buttons, w')))"

section \<open>Vocabulary of the properties\<close>

text \<open>
  The failures after which a loop goes on to its next attempt, and those that end it.
\<close>

fun retryable :: "'b reply \<Rightarrow> bool" where
  "retryable TransportError = True"
| "retryable (Response status body) = (status = 429 \<or> (500 \<le> status \<and> status < 600))"

fun fatal :: "'b reply \<Rightarrow> bool" where
  "fatal TransportError = False"
| "fatal (Response status body) =
     (status \<noteq> 429 \<and> \<not> is_success status \<and> \<not> (500 \<le> status \<and> status < 600))"

fun succeeded :: "'b reply \<Rightarrow> bool" where
  "succeeded TransportError = False"
| "succeeded (Response status body) = is_success status"

text \<open>The request of \<^verbatim>\<open>synthesize_speech\<close> (lines 140 to 152): its voice id and its
  \<^verbatim>\<open>Accept\<close> header.\<close>

definition tts_request :: "string \<Rightarrow> string \<Rightarrow> request" where
  "tts_request voice_id fmt =
     Post_tts voice_id (if fmt = ''mp3'' then ''audio/mpeg'' else ''application/json'')"

text \<open>The world after the attempts of the given delays have all been made.\<close>

fun attempts :: "'b network \<Rightarrow> request \<Rightarrow> real list \<Rightarrow> world \<Rightarrow> world" where
  "attempts net req [] w = w"
| "attempts net req (b # bs) w =
     attempts net req bs (snd (http_request net req (if b \<noteq> 0 then time_sleep b w else w)))"

text \<open>The events of these attempts, and the delays among a list of events.\<close>

fun schedule :: "request \<Rightarrow> real list \<Rightarrow> event list" where
  "schedule req [] = []"
| "schedule req (b # bs) = (if b \<noteq> 0 then [Slept b] else []) @ Sent req # schedule req bs"

fun delays :: "event list \<Rightarrow> real list" where
  "delays [] = []"
| "delays (Slept d # es) = d # delays es"
| "delays (Sent r # es) = delays es"

section \<open>Sample inputs\<close>

text \<open>Sample voice lists.\<close>

definition three_voices :: "voice list" where
  "three_voices =
     [\<lparr>id' = JStr ''v1'', name = JStr ''Ann'', labels = JNull\<rparr>,
      \<lparr>id' = JStr ''v2'', name = JStr ''Bob'', labels = JNull\<rparr>,
      \<lparr>id' = JStr ''v3'', name = JStr ''Unnamed'', labels = JNull\<rparr>]"

definition nine_voices :: "voice list" where
  "nine_voices =
     map (\<lambda>n. \<lparr>id' = JNum n, name = JStr ''Unnamed'', labels = JNull\<rparr>) [1, 2, 3, 4, 5, 6, 7, 8, 9]"

text \<open>Sample settings, a fresh world, and sample networks.\<close>

definition settings0 :: settings where
  "settings0 = \<lparr>elevenlabs_api_key = ''key'', default_voice_id = ''EXAVITQu4vr4xnSDxMaL''\<rparr>"

definition world0 :: world where
  "world0 = \<lparr>cache = voices_cache0, clock = 0, sent = 0, trace = []\<rparr>"

definition directory_json :: json where
  "directory_json =
     JObj [(''voices'', JArr [JObj [(''voice_id'', JStr ''v1''), (''name'', JStr ''Ann'')]])]"

definition busy_then_directory :: "json option network" where
  "busy_then_directory n =
     (if n < 3 then (Response 429 None, 0.1) else (Response 200 (Some directory_json), 0.1))"

definition busy_then_audio :: "nat list network" where
  "busy_then_audio n =
     (if n < 3 then (Response 429 [], 0.1) else (Response 200 [73, 68, 51], 0.1))"

definition always :: "'b reply \<Rightarrow> 'b network" where
  "always rep n = (rep, 0.1)"

definition fetched_world :: world where
  "fetched_world =
     \<lparr>cache = \<lparr>cvalue = Some [\<lparr>id' = JStr ''v1'', name = JStr ''Ann'', labels = JNull\<rparr>],
               ts = 0.1, ttl = 600\<rparr>,
      clock = 0.1, sent = 1, trace = [Sent Get_voices]\<rparr>"

definition cached_world :: world where
  "cached_world =
     \<lparr>cache = \<lparr>cvalue = Some nine_voices, ts = 0, ttl = 600\<rparr>,
      clock = 10, sent = 0, trace = []\<rparr>"

section \<open>Properties of the pagination\<close>

lemma py_slice_window:
  assumes "0 \<le> s" "0 < k"
  shows "py_slice xs s (s + k) = take (nat k) (drop (nat s) xs)"
proof (cases "s \<le> int (length xs)")
  case True
  with assms show ?thesis
    by (auto simp: py_slice_def slice_index_def Let_def drop_take min_def nat_add_distrib nat_diff_distrib)
next
  case False
  with assms show ?thesis
    by (auto simp: py_slice_def slice_index_def Let_def min_def)
qed

lemma concat_chunks:
  "concat (map (\<lambda>p. take k (drop (p * k) xs)) [0..<n]) = take (n * k) xs"
proof (induction n)
  case 0
  show ?case by simp
next
  case (Suc n)
  have "take (Suc n * k) xs = take (n * k + k) xs"
    by (simp add: add.commute)
  also have "\<dots> = take (n * k) xs @ take k (drop (n * k) xs)"
    by (rule take_add)
  finally show ?case using Suc by simp
qed

lemma total_pages_ceiling:
  "total_pages_of voices 8 = max 1 \<lceil>real (length voices) / 8\<rceil>"
proof -
  have "\<lceil>real (length voices) / 8\<rceil> = \<lceil>of_int (int (length voices)) / (of_int 8 :: real)\<rceil>" by simp
  also have "\<dots> = - (- int (length voices) div 8)" by (rule ceiling_divide_eq_div)
  also have "\<dots> = (int (length voices) + 8 - 1) div 8" by presburger
  finally show ?thesis by (simp add: total_pages_of_def)
qed

lemma total_pages_cover:
  assumes "0 < k"
  shows "int (length voices) \<le> total_pages_of voices k * k"
proof -
  have "int (length voices) \<le> ((int (length voices) + k - 1) div k) * k"
  proof -
    have "(int (length voices) + k - 1) mod k < k" using assms by simp
    moreover have "(int (length voices) + k - 1) div k * k + (int (length voices) + k - 1) mod k
        = int (length voices) + k - 1" by simp
    ultimately show ?thesis by linarith
  qed
  also have "\<dots> \<le> total_pages_of voices k * k"
    using assms by (simp add: total_pages_of_def)
  finally show ?thesis .
qed


lemma page_voices_nonneg:
  assumes "0 \<le> p" "0 < k"
  shows "page_voices xs p k = take (nat k) (drop (nat p * nat k) xs)"
proof -
  have "0 \<le> p * k" using assms by simp
  then have "py_slice xs (p * k) (p * k + k) = take (nat k) (drop (nat (p * k)) xs)"
    using assms(2) by (rule py_slice_window)
  then show ?thesis using assms by (simp add: page_voices_def Let_def nat_mult_distrib)
qed

lemma concat_pages:
  assumes "0 < k"
  shows "concat (map (\<lambda>p. page_voices xs (int p) k) [0..<nat (total_pages_of xs k)]) = xs"
proof -
  have "concat (map (\<lambda>p. page_voices xs (int p) k) [0..<n]) = take (n * nat k) xs" for n
    using assms concat_chunks [of "nat k" xs n] by (simp add: page_voices_nonneg)
  moreover have "length xs \<le> nat (total_pages_of xs k) * nat k"
  proof -
    have "0 \<le> total_pages_of xs k" by (simp add: total_pages_of_def)
    then have "int (nat (total_pages_of xs k) * nat k) = total_pages_of xs k * k"
      using assms by simp
    then show ?thesis using total_pages_cover [OF assms, of xs] by linarith
  qed
  ultimately show ?thesis by simp
qed

text \<open>
  C4. With \<open>page_size = 8\<close> the page count is \<open>max(1, ceil(N / 8))\<close>, every
  page's rows are those of the slice \<open>voices[page * 8 : page * 8 + 8]\<close>, and the slices
  of the pages \<open>0 .. total_pages - 1\<close>, concatenated, are the list itself, in order.
\<close>

theorem pagination_covers_list:
  "total_pages_of voices 8 = max 1 \<lceil>real (length voices) / 8\<rceil>
   \<and> (\<forall>page. paginate_buttons voices page 8 =
         Inr (map voice_row (page_voices voices page 8) @ [nav_row page (total_pages_of voices 8)],
              total_pages_of voices 8))
   \<and> (\<forall>page. page_voices voices page 8 = py_slice voices (page * 8) (page * 8 + 8))
   \<and> concat (map (\<lambda>p. page_voices voices (int p) 8) [0..<nat (total_pages_of voices 8)]) = voices"
proof -
  have "concat (map (\<lambda>p. page_voices voices (int p) 8) [0..<nat (total_pages_of voices 8)]) = voices"
    by (rule concat_pages) simp
  then show ?thesis
    by (simp add: total_pages_ceiling paginate_buttons_def page_voices_def Let_def)
qed

lemma page_voices_beyond:
  assumes "0 < k" "total_pages_of xs k \<le> p"
  shows "page_voices xs p k = []"
proof -
  have "int (length xs) \<le> total_pages_of xs k * k" by (rule total_pages_cover [OF assms(1)])
  also have "\<dots> \<le> p * k" using assms by simp
  finally have le: "int (length xs) \<le> p * k" .
  have "0 \<le> p" using assms(2) by (simp add: total_pages_of_def)
  with assms(1) have "page_voices xs p k = take (nat k) (drop (nat p * nat k) xs)"
    by (rule page_voices_nonneg [rotated])
  moreover have "length xs \<le> nat p * nat k"
    using le \<open>0 \<le> p\<close> assms(1) by (metis nat_int nat_mono nat_mult_distrib)
  ultimately show ?thesis by simp
qed

lemma next_iff_items_remain:
  assumes "0 < k" "0 \<le> p"
  shows "p + 1 < total_pages_of xs k \<longleftrightarrow> (p + 1) * k < int (length xs)"
proof -
  let ?n = "int (length xs)"
  have "p + 1 < (?n + k - 1) div k \<longleftrightarrow> (p + 1) * k < ?n"
  proof
    assume "p + 1 < (?n + k - 1) div k"
    then have "p + 2 \<le> (?n + k - 1) div k" by simp
    then have "(p + 2) * k \<le> ((?n + k - 1) div k) * k"
      using assms(1) by (simp add: mult_right_mono)
    also have "\<dots> \<le> ?n + k - 1"
      using assms(1) by (metis div_mult_mod_eq le_add_same_cancel1 pos_mod_sign)
    finally have "(p + 2) * k \<le> ?n + k - 1" .
    then show "(p + 1) * k < ?n" by (simp add: algebra_simps)
  next
    assume "(p + 1) * k < ?n"
    then have "(p + 2) * k \<le> ?n + k - 1" by (simp add: algebra_simps)
    then have "((p + 2) * k) div k \<le> (?n + k - 1) div k" by (rule zdiv_mono1) (rule assms(1))
    then show "p + 1 < (?n + k - 1) div k" using assms(1) by simp
  qed
  then show ?thesis using assms by (auto simp: total_pages_of_def)
qed

text \<open>
  C7. The helper is a function of the list, the page index and the page size alone. For
  every positive page size the last row is the navigation row: it has the "previous"
  control exactly when \<open>page > 0\<close>, the "next" control exactly when
  \<open>page + 1 < total_pages\<close> (for a page index from 0 on: exactly when voices remain
  beyond this page), and always the "refresh" control. For a page index at or beyond
  \<open>total_pages\<close> the slice is empty and the navigation row is the only row.
\<close>

theorem navigation_row:
  assumes "0 < page_size"
  shows "paginate_buttons voices page page_size =
           Inr (map voice_row (page_voices voices page page_size)
                  @ [nav_row page (total_pages_of voices page_size)],
                total_pages_of voices page_size)
         \<and> (Back_caption \<in> caption_of ` set (nav_row page (total_pages_of voices page_size))
              \<longleftrightarrow> page > 0)
         \<and> (Next_caption \<in> caption_of ` set (nav_row page (total_pages_of voices page_size))
              \<longleftrightarrow> page + 1 < total_pages_of voices page_size)
         \<and> (0 \<le> page \<longrightarrow>
              (page + 1 < total_pages_of voices page_size
                 \<longleftrightarrow> (page + 1) * page_size < int (length voices)))
         \<and> InlineKeyboardButton Refresh_caption Refresh
              \<in> set (nav_row page (total_pages_of voices page_size))
         \<and> (total_pages_of voices page_size \<le> page \<longrightarrow>
              page_voices voices page page_size = []
              \<and> paginate_buttons voices page page_size =
                  Inr ([nav_row page (total_pages_of voices page_size)],
                       total_pages_of voices page_size))"
proof -
  have 1: "paginate_buttons voices page page_size =
           Inr (map voice_row (page_voices voices page page_size)
                  @ [nav_row page (total_pages_of voices page_size)],
                total_pages_of voices page_size)"
    using assms by (simp add: paginate_buttons_def Let_def)
  have 2: "Back_caption \<in> caption_of ` set (nav_row page tp) \<longleftrightarrow> page > 0" for tp
    by (auto simp: nav_row_def)
  have 3: "Next_caption \<in> caption_of ` set (nav_row page tp) \<longleftrightarrow> page + 1 < tp" for tp
    by (auto simp: nav_row_def)
  have 4: "0 \<le> page \<longrightarrow>
              (page + 1 < total_pages_of voices page_size
                 \<longleftrightarrow> (page + 1) * page_size < int (length voices))"
    using next_iff_items_remain [OF assms] by blast
  have 5: "InlineKeyboardButton Refresh_caption Refresh \<in> set (nav_row page tp)" for tp
    by (simp add: nav_row_def)
  have 6: "total_pages_of voices page_size \<le> page \<longrightarrow> page_voices voices page page_size = []"
    using page_voices_beyond [OF assms] by blast
  from 1 2 3 4 5 6 show ?thesis by simp
qed

theorem navigation_row_witness:
  "paginate_buttons three_voices 1 2 =
     Inr ([[InlineKeyboardButton (Caption (JStr ''Unnamed'')) (Pick (JStr ''v3''))],
           [InlineKeyboardButton Back_caption (Page 0),
            InlineKeyboardButton Refresh_caption Refresh]], 2)
   \<and> paginate_buttons three_voices 5 2 =
       Inr ([[InlineKeyboardButton Back_caption (Page 4),
              InlineKeyboardButton Refresh_caption Refresh]], 2)
   \<and> paginate_buttons three_voices 0 2 =
       Inr ([[InlineKeyboardButton (Caption (JStr ''Ann'')) (Pick (JStr ''v1''))],
             [InlineKeyboardButton (Caption (JStr ''Bob'')) (Pick (JStr ''v2''))],
             [InlineKeyboardButton Next_caption (Page 1),
              InlineKeyboardButton Refresh_caption Refresh]], 2)"
proof -
  have p: "(0::int) < 2" by simp
  have n: "total_pages_of three_voices 2 = 2"
    by (simp add: three_voices_def total_pages_of_def)
  have s0: "map voice_row (page_voices three_voices 0 2)
             = [[InlineKeyboardButton (Caption (JStr ''Ann'')) (Pick (JStr ''v1''))],
                [InlineKeyboardButton (Caption (JStr ''Bob'')) (Pick (JStr ''v2''))]]"
    by (simp add: three_voices_def page_voices_def py_slice_def slice_index_def voice_row_def
        py_or_def)
  have s1: "map voice_row (page_voices three_voices 1 2)
             = [[InlineKeyboardButton (Caption (JStr ''Unnamed'')) (Pick (JStr ''v3''))]]"
    by (simp add: three_voices_def page_voices_def py_slice_def slice_index_def voice_row_def
        py_or_def)
  have a: "paginate_buttons three_voices 1 2 =
     Inr ([[InlineKeyboardButton (Caption (JStr ''Unnamed'')) (Pick (JStr ''v3''))],
           [InlineKeyboardButton Back_caption (Page 0),
            InlineKeyboardButton Refresh_caption Refresh]], 2)"
    using navigation_row [OF p, of three_voices 1] by (simp only: n s1) (simp add: nav_row_def)
  have b: "paginate_buttons three_voices 5 2 =
       Inr ([[InlineKeyboardButton Back_caption (Page 4),
              InlineKeyboardButton Refresh_caption Refresh]], 2)"
    using navigation_row [OF p, of three_voices 5] by (simp only: n) (simp add: nav_row_def)
  have c: "paginate_buttons three_voices 0 2 =
       Inr ([[InlineKeyboardButton (Caption (JStr ''Ann'')) (Pick (JStr ''v1''))],
             [InlineKeyboardButton (Caption (JStr ''Bob'')) (Pick (JStr ''v2''))],
             [InlineKeyboardButton Next_caption (Page 1),
              InlineKeyboardButton Refresh_caption Refresh]], 2)"
    using navigation_row [OF p, of three_voices 0] by (simp only: n s0) (simp add: nav_row_def)
  from a b c show ?thesis by blast
qed

lemma page_voices_minus_one: "page_voices voices (- 1) 8 = []"
  by (simp add: page_voices_def py_slice_def slice_index_def Let_def)

lemma page_voices_negative:
  assumes "page \<le> - 2"
  shows "page_voices voices page 8 =
           drop (nat (int (length voices) + page * 8))
             (take (nat (int (length voices) + page * 8 + 8)) voices)"
  using assms
  by (auto simp: page_voices_def py_slice_def slice_index_def Let_def max_def algebra_simps)

text \<open>
  C10. For a negative page index the navigation row has no "previous" control and has the
  "next" control, whose target is \<open>page + 1\<close> (page 0 for the index \<open>- 1\<close>). The
  slice is Python's slice with negative bounds: empty for the index \<open>- 1\<close>; for an index
  of \<open>- 2\<close> or less it is counted from the end of the list, and is not empty exactly when
  the list has more than \<open>- (page + 1) * 8\<close> voices. The handler of the page button hands
  such an index on unchanged: its keyboard is the one of the helper.
\<close>

theorem negative_page_index:
  assumes "page < 0"
  shows "Back_caption \<notin> caption_of ` set (nav_row page (total_pages_of voices 8))
         \<and> page + 1 < total_pages_of voices 8
         \<and> nav_row page (total_pages_of voices 8) =
             [InlineKeyboardButton Next_caption (Page (page + 1)),
              InlineKeyboardButton Refresh_caption Refresh]
         \<and> paginate_buttons voices page 8 =
             Inr (map voice_row (page_voices voices page 8)
                    @ [nav_row page (total_pages_of voices 8)], total_pages_of voices 8)
         \<and> page_voices voices page 8 = py_slice voices (page * 8) (page * 8 + 8)
         \<and> (page = - 1 \<longrightarrow> page_voices voices page 8 = [])
         \<and> (page \<le> - 2 \<longrightarrow>
              page_voices voices page 8 =
                drop (nat (int (length voices) + page * 8))
                  (take (nat (int (length voices) + page * 8 + 8)) voices)
              \<and> (page_voices voices page 8 \<noteq> [] \<longleftrightarrow> - (page + 1) * 8 < int (length voices)))
         \<and> (\<forall>net st w. fst (get_voices net st w) = Inr voices \<longrightarrow>
              fst (on_callback_page net st page w) =
                Inr (map voice_row (page_voices voices page 8)
                       @ [nav_row page (total_pages_of voices 8)]))"
proof -
  have tp: "1 \<le> total_pages_of voices 8" by (simp add: total_pages_of_def)
  with assms have lt: "page + 1 < total_pages_of voices 8" by simp
  have nav: "nav_row page (total_pages_of voices 8) =
             [InlineKeyboardButton Next_caption (Page (page + 1)),
              InlineKeyboardButton Refresh_caption Refresh]"
    using assms lt by (simp add: nav_row_def)
  have sl: "page_voices voices page 8 = py_slice voices (page * 8) (page * 8 + 8)"
    by (simp add: page_voices_def Let_def)
  have m1: "page = - 1 \<longrightarrow> page_voices voices page 8 = []"
    by (simp add: page_voices_minus_one)
  have m2: "page \<le> - 2 \<longrightarrow>
              page_voices voices page 8 =
                drop (nat (int (length voices) + page * 8))
                  (take (nat (int (length voices) + page * 8 + 8)) voices)"
    by (simp add: page_voices_negative)
  have m3: "page \<le> - 2 \<longrightarrow>
              (page_voices voices page 8 \<noteq> [] \<longleftrightarrow> - (page + 1) * 8 < int (length voices))"
    by (auto simp: page_voices_negative)
  have pb: "paginate_buttons voices page 8 =
             Inr (map voice_row (page_voices voices page 8)
                    @ [nav_row page (total_pages_of voices 8)], total_pages_of voices 8)"
    by (simp add: paginate_buttons_def Let_def)
  have cb: "\<forall>net st w. fst (get_voices net st w) = Inr voices \<longrightarrow>
              fst (on_callback_page net st page w) =
                Inr (map voice_row (page_voices voices page 8)
                       @ [nav_row page (total_pages_of voices 8)])"
    by (auto simp: on_callback_page_def pb split: prod.splits sum.splits)
  show ?thesis using lt nav sl m1 m2 m3 pb cb by simp
qed

theorem negative_page_index_witness:
  "paginate_buttons nine_voices (- 1) 8 =
     Inr ([[InlineKeyboardButton Next_caption (Page 0),
            InlineKeyboardButton Refresh_caption Refresh]], 2)
   \<and> paginate_buttons nine_voices (- 2) 8 =
       Inr ([[InlineKeyboardButton (Caption (JStr ''Unnamed'')) (Pick (JNum 1))],
             [InlineKeyboardButton Next_caption (Page (- 1)),
              InlineKeyboardButton Refresh_caption Refresh]], 2)
   \<and> fst (on_callback_page (always TransportError) settings0 (- 1) cached_world) =
       Inr [[InlineKeyboardButton Next_caption (Page 0),
             InlineKeyboardButton Refresh_caption Refresh]]"
proof -
  have p1: "(- 1 :: int) < 0" and p2: "(- 2 :: int) < 0" by simp_all
  have n: "total_pages_of nine_voices 8 = 2"
    by (simp add: nine_voices_def total_pages_of_def)
  have s: "page_voices nine_voices (- 2) 8
             = [\<lparr>id' = JNum 1, name = JStr ''Unnamed'', labels = JNull\<rparr>]"
    by (simp add: nine_voices_def page_voices_def py_slice_def slice_index_def)
  have e: "page_voices nine_voices (- 1) 8 = []"
    by (simp add: page_voices_def py_slice_def slice_index_def)
  have r: "voice_row \<lparr>id' = JNum 1, name = JStr ''Unnamed'', labels = JNull\<rparr>
             = [InlineKeyboardButton (Caption (JStr ''Unnamed'')) (Pick (JNum 1))]"
    by (simp add: voice_row_def py_or_def)
  have g: "fst (get_voices (always TransportError) settings0 cached_world) = Inr nine_voices"
    by (simp add: get_voices_def cache_get_def cached_world_def)
  note t1 = negative_page_index [OF p1, of nine_voices]
  note t2 = negative_page_index [OF p2, of nine_voices]
  have nav1: "nav_row (- 1) (total_pages_of nine_voices 8) =
             [InlineKeyboardButton Next_caption (Page 0),
              InlineKeyboardButton Refresh_caption Refresh]"
    using t1 by simp
  have nav2: "nav_row (- 2) (total_pages_of nine_voices 8) =
             [InlineKeyboardButton Next_caption (Page (- 1)),
              InlineKeyboardButton Refresh_caption Refresh]"
    using t2 by simp
  have pb1: "paginate_buttons nine_voices (- 1) 8 =
             Inr (map voice_row (page_voices nine_voices (- 1) 8)
                    @ [nav_row (- 1) (total_pages_of nine_voices 8)], total_pages_of nine_voices 8)"
    using t1 by blast
  have pb2: "paginate_buttons nine_voices (- 2) 8 =
             Inr (map voice_row (page_voices nine_voices (- 2) 8)
                    @ [nav_row (- 2) (total_pages_of nine_voices 8)], total_pages_of nine_voices 8)"
    using t2 by blast
  have cb: "fst (on_callback_page (always TransportError) settings0 (- 1) cached_world) =
                Inr (map voice_row (page_voices nine_voices (- 1) 8)
                       @ [nav_row (- 1) (total_pages_of nine_voices 8)])"
    using t1 g by blast
  have a: "paginate_buttons nine_voices (- 1) 8 =
     Inr ([[InlineKeyboardButton Next_caption (Page 0),
            InlineKeyboardButton Refresh_caption Refresh]], 2)"
    by (simp only: pb1 nav1 e) (simp add: n)
  have b: "paginate_buttons nine_voices (- 2) 8 =
       Inr ([[InlineKeyboardButton (Caption (JStr ''Unnamed'')) (Pick (JNum 1))],
             [InlineKeyboardButton Next_caption (Page (- 1)),
              InlineKeyboardButton Refresh_caption Refresh]], 2)"
    by (simp only: pb2 nav2 s) (simp add: n r)
  have c: "fst (on_callback_page (always TransportError) settings0 (- 1) cached_world) =
       Inr [[InlineKeyboardButton Next_caption (Page 0),
             InlineKeyboardButton Refresh_caption Refresh]]"
    by (simp only: cb nav1 e) simp
  from a b c show ?thesis by blast
qed

section \<open>Properties of the retry loops\<close>

text \<open>What sleeping, an exchange and a run of attempts change.\<close>

lemma sent_time_sleep [simp]: "sent (time_sleep d w) = sent w"
  by (simp add: time_sleep_def)

lemma cache_time_sleep [simp]: "cache (time_sleep d w) = cache w"
  by (simp add: time_sleep_def)

lemma trace_time_sleep [simp]: "trace (time_sleep d w) = trace w @ [Slept d]"
  by (simp add: time_sleep_def)

lemma fst_http_request [simp]: "fst (http_request net req w) = fst (net (sent w))"
  by (simp add: http_request_def split: prod.split)

lemma sent_http_request [simp]: "sent (snd (http_request net req w)) = Suc (sent w)"
  by (simp add: http_request_def split: prod.split)

lemma cache_http_request [simp]: "cache (snd (http_request net req w)) = cache w"
  by (simp add: http_request_def split: prod.split)

lemma trace_http_request [simp]:
  "trace (snd (http_request net req w)) = trace w @ [Sent req]"
  by (simp add: http_request_def split: prod.split)

lemma sent_attempts [simp]: "sent (attempts net req bs w) = sent w + length bs"
  by (induction bs arbitrary: w) simp_all

lemma cache_attempts [simp]: "cache (attempts net req bs w) = cache w"
  by (induction bs arbitrary: w) simp_all

lemma trace_attempts [simp]: "trace (attempts net req bs w) = trace w @ schedule req bs"
  by (induction bs arbitrary: w) simp_all

lemma attempts_append:
  "attempts net req (bs @ cs) w = attempts net req cs (attempts net req bs w)"
  by (induction bs arbitrary: w) simp_all

text \<open>An exchange, as its reply and the world after one attempt.\<close>

lemma attempt_exchange:
  "http_request net req (if b \<noteq> 0 then time_sleep b w else w)
     = (fst (net (sent w)), attempts net req [b] w)"
proof -
  let ?w1 = "if b \<noteq> 0 then time_sleep b w else w"
  have "sent ?w1 = sent w" by simp
  then have "fst (http_request net req ?w1) = fst (net (sent w))"
    by (simp only: fst_http_request)
  moreover have "snd (http_request net req ?w1) = attempts net req [b] w" by simp
  ultimately show ?thesis by (metis prod.collapse)
qed

lemma synthesize_loop_step:
  "synthesize_loop net req (b # bs) w =
     (case fst (net (sent w)) of
        TransportError \<Rightarrow> synthesize_loop net req bs (attempts net req [b] w)
      | Response status content \<Rightarrow>
          if status = 429 then synthesize_loop net req bs (attempts net req [b] w)
          else if \<not> is_success status then
            (if 500 \<le> status \<and> status < 600
             then synthesize_loop net req bs (attempts net req [b] w)
             else (Fell_through, attempts net req [b] w))
          else (Returned content, attempts net req [b] w))"
  by (simp only: synthesize_loop.simps attempt_exchange prod.case)

lemma get_voices_loop_step:
  "get_voices_loop net st (b # bs) w =
     (case fst (net (sent w)) of
        TransportError \<Rightarrow> get_voices_loop net st bs (attempts net Get_voices [b] w)
      | Response status body \<Rightarrow>
          if status = 429 then get_voices_loop net st bs (attempts net Get_voices [b] w)
          else if \<not> is_success status then
            (if 500 \<le> status \<and> status < 600
             then get_voices_loop net st bs (attempts net Get_voices [b] w)
             else (Fell_through, attempts net Get_voices [b] w))
          else
            (case body of
               None \<Rightarrow> (Raised JSONDecodeError, attempts net Get_voices [b] w)
             | Some data \<Rightarrow>
                 (case voices_of_data st data of
                    Inl e \<Rightarrow> (Raised e, attempts net Get_voices [b] w)
                  | Inr voices \<Rightarrow>
                      (Returned voices, cache_set voices (attempts net Get_voices [b] w)))))"
  by (simp only: get_voices_loop.simps attempt_exchange prod.case)

lemma synthesize_loop_retry:
  assumes "retryable (fst (net (sent w)))"
  shows "synthesize_loop net req (b # bs) w = synthesize_loop net req bs (attempts net req [b] w)"
  using assms
  by (cases "fst (net (sent w))") (auto simp add: synthesize_loop_step is_success_def simp del: synthesize_loop.simps attempts.simps)

lemma synthesize_loop_fatal:
  assumes "fatal (fst (net (sent w)))"
  shows "synthesize_loop net req (b # bs) w = (Fell_through, attempts net req [b] w)"
  using assms
  by (cases "fst (net (sent w))") (auto simp add: synthesize_loop_step simp del: synthesize_loop.simps attempts.simps)

lemma synthesize_loop_success:
  assumes "fst (net (sent w)) = Response status content" "is_success status"
  shows "synthesize_loop net req (b # bs) w = (Returned content, attempts net req [b] w)"
proof -
  have "status \<noteq> 429" using assms(2) by (auto simp: is_success_def)
  then show ?thesis
    using assms by (simp add: synthesize_loop_step del: synthesize_loop.simps attempts.simps)
qed

lemma get_voices_loop_retry:
  assumes "retryable (fst (net (sent w)))"
  shows "get_voices_loop net st (b # bs) w = get_voices_loop net st bs (attempts net Get_voices [b] w)"
  using assms
  by (cases "fst (net (sent w))") (auto simp add: get_voices_loop_step is_success_def simp del: get_voices_loop.simps attempts.simps)

lemma get_voices_loop_fatal:
  assumes "fatal (fst (net (sent w)))"
  shows "get_voices_loop net st (b # bs) w = (Fell_through, attempts net Get_voices [b] w)"
  using assms
  by (cases "fst (net (sent w))") (auto simp add: get_voices_loop_step simp del: get_voices_loop.simps attempts.simps)

lemma get_voices_loop_success:
  assumes "fst (net (sent w)) = Response status (Some data)" "is_success status"
    and "voices_of_data st data = Inr voices"
  shows "get_voices_loop net st (b # bs) w
           = (Returned voices, cache_set voices (attempts net Get_voices [b] w))"
proof -
  have "status \<noteq> 429" using assms(2) by (auto simp: is_success_def)
  then show ?thesis
    using assms by (simp add: get_voices_loop_step del: get_voices_loop.simps attempts.simps)
qed

lemma shift_index:
  assumes "\<forall>i<Suc n. P (k + i)"
  shows "P k" and "\<forall>i<n. P (Suc k + i)"
proof -
  show "P k" using assms by (metis add.right_neutral zero_less_Suc)
  show "\<forall>i<n. P (Suc k + i)"
  proof (intro allI impI)
    fix i assume "i < n"
    then have "Suc i < Suc n" by simp
    then have "P (k + Suc i)" using assms by blast
    then show "P (Suc k + i)" by simp
  qed
qed

lemma synthesize_loop_retries:
  assumes "\<forall>i<length bs. retryable (fst (net (sent w + i)))"
  shows "synthesize_loop net req (bs @ cs) w = synthesize_loop net req cs (attempts net req bs w)"
  using assms
proof (induction bs arbitrary: w)
  case Nil
  show ?case by simp
next
  case (Cons b bs)
  have p: "\<forall>i<Suc (length bs). retryable (fst (net (sent w + i)))" using Cons.prems by simp
  have 0: "retryable (fst (net (sent w)))" by (rule shift_index(1) [OF p])
  have "\<forall>i<length bs. retryable (fst (net (Suc (sent w) + i)))" by (rule shift_index(2) [OF p])
  then have "\<forall>i<length bs. retryable (fst (net (sent (attempts net req [b] w) + i)))" by simp
  then have "synthesize_loop net req (bs @ cs) (attempts net req [b] w)
      = synthesize_loop net req cs (attempts net req bs (attempts net req [b] w))"
    by (rule Cons.IH)
  moreover have "synthesize_loop net req ((b # bs) @ cs) w
      = synthesize_loop net req (bs @ cs) (attempts net req [b] w)"
    using synthesize_loop_retry [where net = net and w = w and req = req and b = b and bs = "bs @ cs", OF 0]
    by simp
  moreover have "attempts net req bs (attempts net req [b] w) = attempts net req (b # bs) w"
    by simp
  ultimately show ?case by (simp del: synthesize_loop.simps attempts.simps)
qed

lemma get_voices_loop_retries:
  assumes "\<forall>i<length bs. retryable (fst (net (sent w + i)))"
  shows "get_voices_loop net st (bs @ cs) w = get_voices_loop net st cs (attempts net Get_voices bs w)"
  using assms
proof (induction bs arbitrary: w)
  case Nil
  show ?case by simp
next
  case (Cons b bs)
  have p: "\<forall>i<Suc (length bs). retryable (fst (net (sent w + i)))" using Cons.prems by simp
  have 0: "retryable (fst (net (sent w)))" by (rule shift_index(1) [OF p])
  have "\<forall>i<length bs. retryable (fst (net (Suc (sent w) + i)))" by (rule shift_index(2) [OF p])
  then have "\<forall>i<length bs. retryable (fst (net (sent (attempts net Get_voices [b] w) + i)))" by simp
  then have "get_voices_loop net st (bs @ cs) (attempts net Get_voices [b] w)
      = get_voices_loop net st cs (attempts net Get_voices bs (attempts net Get_voices [b] w))"
    by (rule Cons.IH)
  moreover have "get_voices_loop net st ((b # bs) @ cs) w
      = get_voices_loop net st (bs @ cs) (attempts net Get_voices [b] w)"
    using get_voices_loop_retry [where net = net and w = w and st = st and b = b and bs = "bs @ cs", OF 0]
    by simp
  moreover have "attempts net Get_voices bs (attempts net Get_voices [b] w) = attempts net Get_voices (b # bs) w"
    by simp
  ultimately show ?case by (simp del: get_voices_loop.simps attempts.simps)
qed

lemma backoffs_split: "0.0 # backoffs = [0, 1/2, 1] @ [2]"
  by (simp add: backoffs_def)

lemma schedule_full:
  "schedule req (0.0 # backoffs)
     = [Sent req, Slept 0.5, Sent req, Slept 1.0, Sent req, Slept 2.0, Sent req]"
  by (simp add: backoffs_def)

text \<open>The events of a loop are a prefix of its schedule.\<close>

lemma synthesize_loop_prefix:
  "\<exists>es. trace (snd (synthesize_loop net req bs w)) = trace w @ es \<and> prefix es (schedule req bs)"
proof (induction bs arbitrary: w)
  case Nil
  show ?case by simp
next
  case (Cons b bs)
  let ?w1 = "attempts net req [b] w"
  let ?one = "(if b \<noteq> 0 then [Slept b] else []) @ [Sent req]"
  have t1: "trace ?w1 = trace w @ ?one" by simp
  have sch: "schedule req (b # bs) = ?one @ schedule req bs" by simp
  obtain es where es: "trace (snd (synthesize_loop net req bs ?w1)) = trace ?w1 @ es"
    "prefix es (schedule req bs)" using Cons.IH by blast
  have go: "\<exists>es'. trace (snd (synthesize_loop net req bs ?w1)) = trace w @ es'
              \<and> prefix es' (schedule req (b # bs))"
    using es t1 sch by (metis append.assoc same_prefix_prefix)
  have stop: "\<exists>es'. trace ?w1 = trace w @ es' \<and> prefix es' (schedule req (b # bs))"
    using t1 sch by (metis prefixI)
  show ?case
    using go stop
    by (cases "fst (net (sent w))")
       (auto simp add: synthesize_loop_step simp del: synthesize_loop.simps attempts.simps schedule.simps)
qed

lemma trace_cache_set [simp]: "trace (cache_set v w) = trace w"
  by (simp add: cache_set_def)

lemma sent_cache_set [simp]: "sent (cache_set v w) = sent w"
  by (simp add: cache_set_def)

lemma get_voices_loop_prefix:
  "\<exists>es. trace (snd (get_voices_loop net st bs w)) = trace w @ es
        \<and> prefix es (schedule Get_voices bs)"
proof (induction bs arbitrary: w)
  case Nil
  show ?case by simp
next
  case (Cons b bs)
  let ?w1 = "attempts net Get_voices [b] w"
  let ?one = "(if b \<noteq> 0 then [Slept b] else []) @ [Sent Get_voices]"
  have t1: "trace ?w1 = trace w @ ?one" by simp
  have sch: "schedule Get_voices (b # bs) = ?one @ schedule Get_voices bs" by simp
  obtain es where es: "trace (snd (get_voices_loop net st bs ?w1)) = trace ?w1 @ es"
    "prefix es (schedule Get_voices bs)" using Cons.IH by blast
  have go: "\<exists>es'. trace (snd (get_voices_loop net st bs ?w1)) = trace w @ es'
              \<and> prefix es' (schedule Get_voices (b # bs))"
    using es t1 sch by (metis append.assoc same_prefix_prefix)
  have stop: "\<exists>es'. trace ?w1 = trace w @ es' \<and> prefix es' (schedule Get_voices (b # bs))"
    using t1 sch by (metis prefixI)
  show ?case
    using go stop
    by (cases "fst (net (sent w))")
       (auto simp add: get_voices_loop_step split: option.split sum.split
             simp del: get_voices_loop.simps attempts.simps schedule.simps)
qed

lemma synthesize_speech_prefix:
  "\<exists>es. trace (snd (synthesize_speech net text voice_id fmt w)) = trace w @ es
        \<and> prefix es (schedule (Post_tts voice_id (if fmt = ''mp3'' then ''audio/mpeg'' else ''application/json'')) (0.0 # backoffs))"
proof -
  let ?req = "Post_tts voice_id (if fmt = ''mp3'' then ''audio/mpeg'' else ''application/json'')"
  obtain r w' where h: "synthesize_loop net ?req (0.0 # backoffs) w = (r, w')"
    by (cases "synthesize_loop net ?req (0.0 # backoffs) w")
  have "\<exists>es. trace w' = trace w @ es \<and> prefix es (schedule ?req (0.0 # backoffs))"
    using synthesize_loop_prefix [of net ?req "0.0 # backoffs" w] h by simp
  then show ?thesis
    using h
    by (cases r) (auto simp add: synthesize_speech_def Let_def simp del: synthesize_loop.simps schedule.simps)
qed

lemma get_voices_prefix:
  "\<exists>es. trace (snd (get_voices net st w)) = trace w @ es
        \<and> prefix es (schedule Get_voices (0.0 # backoffs))"
proof (cases "cache_get w")
  case (Some cached)
  then show ?thesis by (simp add: get_voices_def)
next
  case None
  obtain r w' where h: "get_voices_loop net st (0.0 # backoffs) w = (r, w')"
    by (cases "get_voices_loop net st (0.0 # backoffs) w")
  have "\<exists>es. trace w' = trace w @ es \<and> prefix es (schedule Get_voices (0.0 # backoffs))"
    using get_voices_loop_prefix [of net st "0.0 # backoffs" w] h by simp
  then show ?thesis
    using h None
    by (cases r) (auto simp add: get_voices_def simp del: get_voices_loop.simps schedule.simps)
qed

lemma rate_limited_retryable:
  assumes "\<forall>i<n. \<exists>b. fst (net (k + i)) = Response 429 b"
  shows "\<forall>i<n. retryable (fst (net (k + i)))"
proof (intro allI impI)
  fix i assume "i < n"
  with assms obtain b where "fst (net (k + i)) = Response 429 b" by blast
  then show "retryable (fst (net (k + i)))" by simp
qed

lemma length_three: "length [0, 1/2, 1 :: real] = 3"
  by simp

lemma synthesize_three_429_then_success:
  assumes r: "\<forall>i<3. \<exists>b. fst (net (sent w + i)) = Response 429 b"
    and ok: "fst (net (sent w + 3)) = Response status content" "is_success status"
  shows "synthesize_loop net req (0.0 # backoffs) w
           = (Returned content, attempts net req (0.0 # backoffs) w)"
proof -
  have "\<forall>i<length [0, 1/2, 1 :: real]. retryable (fst (net (sent w + i)))"
    unfolding length_three using r by (rule rate_limited_retryable)
  then have "synthesize_loop net req ([0, 1/2, 1] @ [2]) w
      = synthesize_loop net req [2] (attempts net req [0, 1/2, 1] w)"
    by (rule synthesize_loop_retries)
  also have "\<dots> = (Returned content, attempts net req [2] (attempts net req [0, 1/2, 1] w))"
    using ok by (intro synthesize_loop_success [where status = status]) (simp_all add: numeral_3_eq_3)
  also have "attempts net req [2] (attempts net req [0, 1/2, 1] w) = attempts net req ([0, 1/2, 1] @ [2]) w"
    by (simp only: attempts_append)
  finally show ?thesis by (simp only: backoffs_split)
qed

lemma get_voices_three_429_then_success:
  assumes r: "\<forall>i<3. \<exists>b. fst (net (sent w + i)) = Response 429 b"
    and ok: "fst (net (sent w + 3)) = Response status (Some data)" "is_success status"
      "voices_of_data st data = Inr voices"
  shows "get_voices_loop net st (0.0 # backoffs) w
           = (Returned voices, cache_set voices (attempts net Get_voices (0.0 # backoffs) w))"
proof -
  have "\<forall>i<length [0, 1/2, 1 :: real]. retryable (fst (net (sent w + i)))"
    unfolding length_three using r by (rule rate_limited_retryable)
  then have "get_voices_loop net st ([0, 1/2, 1] @ [2]) w
      = get_voices_loop net st [2] (attempts net Get_voices [0, 1/2, 1] w)"
    by (rule get_voices_loop_retries)
  also have "\<dots> = (Returned voices,
        cache_set voices (attempts net Get_voices [2] (attempts net Get_voices [0, 1/2, 1] w)))"
    using ok by (intro get_voices_loop_success [where status = status and data = data]) (simp_all add: numeral_3_eq_3)
  also have "attempts net Get_voices [2] (attempts net Get_voices [0, 1/2, 1] w)
      = attempts net Get_voices ([0, 1/2, 1] @ [2]) w"
    by (simp only: attempts_append)
  finally show ?thesis by (simp only: backoffs_split)
qed

text \<open>Neither loop sends more requests than its schedule has delays.\<close>

lemma synthesize_loop_sent_le:
  "sent (snd (synthesize_loop net req bs w)) \<le> sent w + length bs"
proof (induction bs arbitrary: w)
  case Nil
  show ?case by simp
next
  case (Cons b bs)
  have "sent (snd (synthesize_loop net req bs (attempts net req [b] w)))
      \<le> sent (attempts net req [b] w) + length bs"
    by (rule Cons.IH)
  then show ?case
    by (cases "fst (net (sent w))")
       (auto simp add: synthesize_loop_step simp del: synthesize_loop.simps attempts.simps)
qed

lemma get_voices_loop_sent_le:
  "sent (snd (get_voices_loop net st bs w)) \<le> sent w + length bs"
proof (induction bs arbitrary: w)
  case Nil
  show ?case by simp
next
  case (Cons b bs)
  have "sent (snd (get_voices_loop net st bs (attempts net Get_voices [b] w)))
      \<le> sent (attempts net Get_voices [b] w) + length bs"
    by (rule Cons.IH)
  then show ?case
    by (cases "fst (net (sent w))")
       (auto simp add: get_voices_loop_step split: option.splits sum.splits
             simp del: get_voices_loop.simps attempts.simps)
qed

lemma length_backoffs: "length (0.0 # backoffs) = 4"
  by (simp add: backoffs_def)

lemma synthesize_speech_sent_le:
  "sent (snd (synthesize_speech net text voice_id fmt w)) \<le> sent w + 4"
proof -
  let ?req = "Post_tts voice_id (if fmt = ''mp3'' then ''audio/mpeg'' else ''application/json'')"
  obtain r w' where h: "synthesize_loop net ?req (0.0 # backoffs) w = (r, w')"
    by (cases "synthesize_loop net ?req (0.0 # backoffs) w")
  have "sent w' \<le> sent w + 4"
    using synthesize_loop_sent_le [of net ?req "0.0 # backoffs" w] h
    by (simp only: length_backoffs snd_conv)
  then show ?thesis
    using h
    by (cases r) (auto simp add: synthesize_speech_def Let_def simp del: synthesize_loop.simps)
qed

lemma get_voices_sent_le:
  "sent (snd (get_voices net st w)) \<le> sent w + 4"
proof (cases "cache_get w")
  case (Some cached)
  then show ?thesis by (simp add: get_voices_def)
next
  case None
  obtain r w' where h: "get_voices_loop net st (0.0 # backoffs) w = (r, w')"
    by (cases "get_voices_loop net st (0.0 # backoffs) w")
  have "sent w' \<le> sent w + 4"
    using get_voices_loop_sent_le [of net st "0.0 # backoffs" w] h
    by (simp only: length_backoffs snd_conv)
  then show ?thesis
    using h None
    by (cases r) (auto simp add: get_voices_def simp del: get_voices_loop.simps)
qed

text \<open>Three attempts answered with 429 and a fourth that succeeds, for each operation.\<close>

lemma get_voices_after_three_429:
  assumes miss: "cache_get w = None"
    and r: "\<forall>i<3. \<exists>b. fst (net (sent w + i)) = Response 429 b"
    and ok: "fst (net (sent w + 3)) = Response status (Some data)" "is_success status"
      "voices_of_data st data = Inr voices"
  shows "fst (get_voices net st w) = Inr voices
       \<and> trace (snd (get_voices net st w))
           = trace w @ [Sent Get_voices, Slept 0.5, Sent Get_voices, Slept 1.0,
                        Sent Get_voices, Slept 2.0, Sent Get_voices]
       \<and> sent (snd (get_voices net st w)) = sent w + 4"
proof -
  have g: "get_voices net st w
      = (Inr voices, cache_set voices (attempts net Get_voices (0.0 # backoffs) w))"
    using get_voices_three_429_then_success [OF r ok] miss
    by (simp add: get_voices_def del: get_voices_loop.simps attempts.simps)
  have c: "fst (get_voices net st w) = Inr voices" by (simp only: g fst_conv)
  have d: "trace (snd (get_voices net st w))
           = trace w @ [Sent Get_voices, Slept 0.5, Sent Get_voices, Slept 1.0,
                        Sent Get_voices, Slept 2.0, Sent Get_voices]"
    by (simp only: g snd_conv trace_cache_set trace_attempts schedule_full)
  have e: "sent (snd (get_voices net st w)) = sent w + 4"
    by (simp add: g backoffs_def del: attempts.simps)
  from c d e show ?thesis by blast
qed

lemma synthesize_after_three_429:
  assumes valid: "text \<noteq> []" "length text \<le> 5000"
    and r: "\<forall>i<3. \<exists>b. fst (net (sent w + i)) = Response 429 b"
    and ok: "fst (net (sent w + 3)) = Response status content" "is_success status"
  shows "fst (synthesize_speech net text voice_id fmt w) = Inr content
       \<and> trace (snd (synthesize_speech net text voice_id fmt w))
           = trace w @ [Sent (tts_request voice_id fmt), Slept 0.5, Sent (tts_request voice_id fmt),
                        Slept 1.0, Sent (tts_request voice_id fmt), Slept 2.0,
                        Sent (tts_request voice_id fmt)]
       \<and> sent (snd (synthesize_speech net text voice_id fmt w)) = sent w + 4"
proof -
  let ?req = "tts_request voice_id fmt"
  have s: "synthesize_speech net text voice_id fmt w
      = (Inr content, attempts net ?req (0.0 # backoffs) w)"
    using synthesize_three_429_then_success [OF r ok, of ?req] valid
    by (simp add: synthesize_speech_def tts_request_def Let_def
        del: synthesize_loop.simps attempts.simps)
  have f: "fst (synthesize_speech net text voice_id fmt w) = Inr content" by (simp only: s fst_conv)
  have h: "trace (snd (synthesize_speech net text voice_id fmt w))
           = trace w @ [Sent ?req, Slept 0.5, Sent ?req, Slept 1.0, Sent ?req, Slept 2.0, Sent ?req]"
    by (simp only: s snd_conv trace_attempts schedule_full)
  have i: "sent (snd (synthesize_speech net text voice_id fmt w)) = sent w + 4"
    by (simp add: s backoffs_def del: attempts.simps)
  from f h i show ?thesis by blast
qed

text \<open>
  C1. Both operations make at most four attempts, sleeping 0.5, 1 and 2 seconds before
  the second, third and fourth and not at all before the first: for every network, every
  argument and every world, the events of a call are a prefix of the schedule and at most
  four requests are sent. When the first three attempts are answered with HTTP 429 and
  the fourth with a 2xx, the call returns what the fourth attempt brought (the normalised
  voices of a cache miss, the audio content of a valid text), after four requests and
  the three delays, which increase strictly.
\<close>

theorem retry_schedule:
  "(\<forall>net st w.
      (\<exists>es. trace (snd (get_voices net st w)) = trace w @ es
            \<and> prefix es [Sent Get_voices, Slept 0.5, Sent Get_voices, Slept 1.0,
                          Sent Get_voices, Slept 2.0, Sent Get_voices])
      \<and> sent (snd (get_voices net st w)) \<le> sent w + 4)
   \<and> (\<forall>net text voice_id fmt w.
      (\<exists>es. trace (snd (synthesize_speech net text voice_id fmt w)) = trace w @ es
            \<and> prefix es [Sent (tts_request voice_id fmt), Slept 0.5,
                          Sent (tts_request voice_id fmt), Slept 1.0,
                          Sent (tts_request voice_id fmt), Slept 2.0,
                          Sent (tts_request voice_id fmt)])
      \<and> sent (snd (synthesize_speech net text voice_id fmt w)) \<le> sent w + 4)
   \<and> (cache_get gw = None
        \<and> (\<forall>i<3. \<exists>b. fst (gnet (sent gw + i)) = Response 429 b)
        \<and> fst (gnet (sent gw + 3)) = Response gstatus (Some data)
        \<and> is_success gstatus \<and> voices_of_data gst data = Inr voices
      \<longrightarrow> fst (get_voices gnet gst gw) = Inr voices
        \<and> trace (snd (get_voices gnet gst gw))
            = trace gw @ [Sent Get_voices, Slept 0.5, Sent Get_voices, Slept 1.0,
                          Sent Get_voices, Slept 2.0, Sent Get_voices]
        \<and> sent (snd (get_voices gnet gst gw)) = sent gw + 4)
   \<and> (stext \<noteq> [] \<and> length stext \<le> 5000
        \<and> (\<forall>i<3. \<exists>b. fst (snet (sent sw + i)) = Response 429 b)
        \<and> fst (snet (sent sw + 3)) = Response sstatus content
        \<and> is_success sstatus
      \<longrightarrow> fst (synthesize_speech snet stext svoice sfmt sw) = Inr content
        \<and> trace (snd (synthesize_speech snet stext svoice sfmt sw))
            = trace sw @ [Sent (tts_request svoice sfmt), Slept 0.5,
                          Sent (tts_request svoice sfmt), Slept 1.0,
                          Sent (tts_request svoice sfmt), Slept 2.0,
                          Sent (tts_request svoice sfmt)]
        \<and> sent (snd (synthesize_speech snet stext svoice sfmt sw)) = sent sw + 4)
   \<and> (\<forall>req. delays [Sent req, Slept 0.5, Sent req, Slept 1.0, Sent req, Slept 2.0, Sent req]
           = [0.5, 1.0, 2.0])
   \<and> sorted_wrt (<) [0.5, 1.0, 2.0 :: real]"
proof -
  have a: "\<forall>net st w.
      (\<exists>es. trace (snd (get_voices net st w)) = trace w @ es
            \<and> prefix es [Sent Get_voices, Slept 0.5, Sent Get_voices, Slept 1.0,
                          Sent Get_voices, Slept 2.0, Sent Get_voices])
      \<and> sent (snd (get_voices net st w)) \<le> sent w + 4"
    using get_voices_prefix get_voices_sent_le by (simp only: schedule_full) blast
  have b: "\<forall>net text voice_id fmt w.
      (\<exists>es. trace (snd (synthesize_speech net text voice_id fmt w)) = trace w @ es
            \<and> prefix es [Sent (tts_request voice_id fmt), Slept 0.5,
                          Sent (tts_request voice_id fmt), Slept 1.0,
                          Sent (tts_request voice_id fmt), Slept 2.0,
                          Sent (tts_request voice_id fmt)])
      \<and> sent (snd (synthesize_speech net text voice_id fmt w)) \<le> sent w + 4"
    using synthesize_speech_prefix synthesize_speech_sent_le
    by (simp only: schedule_full tts_request_def) blast
  have g: "cache_get gw = None
        \<and> (\<forall>i<3. \<exists>b. fst (gnet (sent gw + i)) = Response 429 b)
        \<and> fst (gnet (sent gw + 3)) = Response gstatus (Some data)
        \<and> is_success gstatus \<and> voices_of_data gst data = Inr voices
      \<longrightarrow> fst (get_voices gnet gst gw) = Inr voices
        \<and> trace (snd (get_voices gnet gst gw))
            = trace gw @ [Sent Get_voices, Slept 0.5, Sent Get_voices, Slept 1.0,
                          Sent Get_voices, Slept 2.0, Sent Get_voices]
        \<and> sent (snd (get_voices gnet gst gw)) = sent gw + 4"
    using get_voices_after_three_429 [of gw gnet gstatus data gst voices] by blast
  have s: "stext \<noteq> [] \<and> length stext \<le> 5000
        \<and> (\<forall>i<3. \<exists>b. fst (snet (sent sw + i)) = Response 429 b)
        \<and> fst (snet (sent sw + 3)) = Response sstatus content
        \<and> is_success sstatus
      \<longrightarrow> fst (synthesize_speech snet stext svoice sfmt sw) = Inr content
        \<and> trace (snd (synthesize_speech snet stext svoice sfmt sw))
            = trace sw @ [Sent (tts_request svoice sfmt), Slept 0.5,
                          Sent (tts_request svoice sfmt), Slept 1.0,
                          Sent (tts_request svoice sfmt), Slept 2.0,
                          Sent (tts_request svoice sfmt)]
        \<and> sent (snd (synthesize_speech snet stext svoice sfmt sw)) = sent sw + 4"
    using synthesize_after_three_429 [of stext snet sw sstatus content svoice sfmt] by blast
  have j: "\<forall>req. delays [Sent req, Slept 0.5, Sent req, Slept 1.0, Sent req, Slept 2.0, Sent req]
           = [0.5, 1.0, 2.0]" by simp
  have k: "sorted_wrt (<) [0.5, 1.0, 2.0 :: real]" by simp
  from a b g s j k show ?thesis by blast
qed

lemma cache_get_world0: "cache_get world0 = None"
  by (simp add: cache_get_def world0_def voices_cache0_def)

lemma directory_voices:
  "voices_of_data settings0 directory_json
     = Inr [\<lparr>id' = JStr ''v1'', name = JStr ''Ann'', labels = JNull\<rparr>]"
  by (simp add: voices_of_data_def directory_json_def dict_get_def py_or_def)

theorem retry_schedule_witness:
  "fst (get_voices busy_then_directory settings0 world0)
     = Inr [\<lparr>id' = JStr ''v1'', name = JStr ''Ann'', labels = JNull\<rparr>]
   \<and> trace (snd (get_voices busy_then_directory settings0 world0))
       = [Sent Get_voices, Slept 0.5, Sent Get_voices, Slept 1.0,
          Sent Get_voices, Slept 2.0, Sent Get_voices]
   \<and> cache_get cached_world = Some nine_voices
   \<and> fst (synthesize_speech busy_then_audio ''hello'' ''v1'' ''mp3'' cached_world)
       = Inr [73, 68, 51]
   \<and> trace (snd (synthesize_speech busy_then_audio ''hello'' ''v1'' ''mp3'' cached_world))
       = [Sent (Post_tts ''v1'' ''audio/mpeg''), Slept 0.5, Sent (Post_tts ''v1'' ''audio/mpeg''),
          Slept 1.0, Sent (Post_tts ''v1'' ''audio/mpeg''), Slept 2.0,
          Sent (Post_tts ''v1'' ''audio/mpeg'')]
   \<and> sent (snd (synthesize_speech busy_then_audio ''hello'' ''v1'' ''mp3'' cached_world)) = 4"
proof -
  have s0: "sent world0 = 0" and t0: "trace world0 = []" by (simp_all add: world0_def)
  have s1: "sent cached_world = 0" and t1: "trace cached_world = []"
    by (simp_all add: cached_world_def)
  have w: "cache_get cached_world = Some nine_voices"
    by (simp add: cache_get_def cached_world_def)
  have q: "tts_request ''v1'' ''mp3'' = Post_tts ''v1'' ''audio/mpeg''"
    by (simp add: tts_request_def)
  have 1: "\<forall>i<3. \<exists>b. fst (busy_then_directory (sent world0 + i)) = Response 429 b"
    by (simp add: s0 busy_then_directory_def)
  have 2: "fst (busy_then_directory (sent world0 + 3)) = Response 200 (Some directory_json)"
    by (simp add: s0 busy_then_directory_def)
  have 3: "is_success 200" by (simp add: is_success_def)
  have 4: "\<forall>i<3. \<exists>b. fst (busy_then_audio (sent cached_world + i)) = Response 429 b"
    by (simp add: s1 busy_then_audio_def)
  have 5: "fst (busy_then_audio (sent cached_world + 3)) = Response 200 [73, 68, 51]"
    by (simp add: s1 busy_then_audio_def)
  have 6: "''hello'' \<noteq> []" "length ''hello'' \<le> 5000" by simp_all
  note t = retry_schedule [where gw = world0 and gnet = busy_then_directory and gstatus = 200
      and data = directory_json and gst = settings0
      and voices = "[\<lparr>id' = JStr ''v1'', name = JStr ''Ann'', labels = JNull\<rparr>]"
      and stext = "''hello''" and snet = busy_then_audio and sw = cached_world
      and sstatus = 200 and content = "[73, 68, 51]" and svoice = "''v1''" and sfmt = "''mp3''"]
  note gi = t [THEN conjunct2, THEN conjunct2, THEN conjunct1]
  note si = t [THEN conjunct2, THEN conjunct2, THEN conjunct2, THEN conjunct1]
  have g: "fst (get_voices busy_then_directory settings0 world0)
             = Inr [\<lparr>id' = JStr ''v1'', name = JStr ''Ann'', labels = JNull\<rparr>]
        \<and> trace (snd (get_voices busy_then_directory settings0 world0))
            = trace world0 @ [Sent Get_voices, Slept 0.5, Sent Get_voices, Slept 1.0,
                          Sent Get_voices, Slept 2.0, Sent Get_voices]"
    using gi cache_get_world0 1 2 3 directory_voices by blast
  have s: "fst (synthesize_speech busy_then_audio ''hello'' ''v1'' ''mp3'' cached_world)
             = Inr [73, 68, 51]
        \<and> trace (snd (synthesize_speech busy_then_audio ''hello'' ''v1'' ''mp3'' cached_world))
            = trace cached_world @ [Sent (tts_request ''v1'' ''mp3''), Slept 0.5,
                          Sent (tts_request ''v1'' ''mp3''), Slept 1.0,
                          Sent (tts_request ''v1'' ''mp3''), Slept 2.0,
                          Sent (tts_request ''v1'' ''mp3'')]
        \<and> sent (snd (synthesize_speech busy_then_audio ''hello'' ''v1'' ''mp3'' cached_world))
            = sent cached_world + 4"
    using si 4 5 3 6 by blast
  from g s w show ?thesis by (simp add: t0 t1 s1 q)
qed

text \<open>A loop whose first \<open>k\<close> attempts fail retryably and whose next one fails fatally.\<close>

lemma split_at_attempt:
  assumes "k < length bs"
  shows "bs = take k bs @ (bs ! k # drop (Suc k) bs)" and "length (take k bs) = k"
    and "take (Suc k) bs = take k bs @ [bs ! k]"
  using assms by (simp_all add: id_take_nth_drop [symmetric] take_Suc_conv_app_nth)

lemma synthesize_loop_abort:
  assumes k: "k < length bs"
    and r: "\<forall>i<k. retryable (fst (net (sent w + i)))"
    and f: "fatal (fst (net (sent w + k)))"
  shows "synthesize_loop net req bs w = (Fell_through, attempts net req (take (Suc k) bs) w)"
proof -
  let ?w = "attempts net req (take k bs) w"
  have len: "length (take k bs) = k" by (rule split_at_attempt(2) [OF k])
  have "\<forall>i<length (take k bs). retryable (fst (net (sent w + i)))" using r len by simp
  then have "synthesize_loop net req (take k bs @ (bs ! k # drop (Suc k) bs)) w
      = synthesize_loop net req (bs ! k # drop (Suc k) bs) ?w"
    by (rule synthesize_loop_retries)
  moreover have "fatal (fst (net (sent ?w)))" using f len by simp
  then have "synthesize_loop net req (bs ! k # drop (Suc k) bs) ?w
      = (Fell_through, attempts net req [bs ! k] ?w)"
    by (rule synthesize_loop_fatal)
  moreover have "attempts net req [bs ! k] ?w = attempts net req (take (Suc k) bs) w"
    by (simp only: split_at_attempt(3) [OF k] attempts_append)
  ultimately show ?thesis using split_at_attempt(1) [OF k] by simp
qed

lemma get_voices_loop_abort:
  assumes k: "k < length bs"
    and r: "\<forall>i<k. retryable (fst (net (sent w + i)))"
    and f: "fatal (fst (net (sent w + k)))"
  shows "get_voices_loop net st bs w
           = (Fell_through, attempts net Get_voices (take (Suc k) bs) w)"
proof -
  let ?w = "attempts net Get_voices (take k bs) w"
  have len: "length (take k bs) = k" by (rule split_at_attempt(2) [OF k])
  have "\<forall>i<length (take k bs). retryable (fst (net (sent w + i)))" using r len by simp
  then have "get_voices_loop net st (take k bs @ (bs ! k # drop (Suc k) bs)) w
      = get_voices_loop net st (bs ! k # drop (Suc k) bs) ?w"
    by (rule get_voices_loop_retries)
  moreover have "fatal (fst (net (sent ?w)))" using f len by simp
  then have "get_voices_loop net st (bs ! k # drop (Suc k) bs) ?w
      = (Fell_through, attempts net Get_voices [bs ! k] ?w)"
    by (rule get_voices_loop_fatal)
  moreover have "attempts net Get_voices [bs ! k] ?w = attempts net Get_voices (take (Suc k) bs) w"
    by (simp only: split_at_attempt(3) [OF k] attempts_append)
  ultimately show ?thesis using split_at_attempt(1) [OF k] by simp
qed

lemma synthesize_loop_exhaust:
  assumes "\<forall>i<length bs. retryable (fst (net (sent w + i)))"
  shows "synthesize_loop net req bs w = (Fell_through, attempts net req bs w)"
  using synthesize_loop_retries [OF assms, of req "[]"] by simp

lemma get_voices_loop_exhaust:
  assumes "\<forall>i<length bs. retryable (fst (net (sent w + i)))"
  shows "get_voices_loop net st bs w = (Fell_through, attempts net Get_voices bs w)"
  using get_voices_loop_retries [OF assms, of st "[]"] by simp

lemma client_error_fatal:
  assumes "400 \<le> status" "status < 500" "status \<noteq> 429"
  shows "fatal (Response status body)"
  using assms by (simp add: is_success_def)

lemma delays_schedule: "delays (schedule req bs) = filter (\<lambda>b. b \<noteq> 0) bs"
  by (induction bs) simp_all

lemma delays_before_abort:
  assumes "k < 4"
  shows "delays (schedule req (take (Suc k) (0.0 # backoffs))) = take k backoffs"
proof -
  have "filter (\<lambda>b. b \<noteq> 0) (take k backoffs) = take k backoffs"
    by (rule filter_True) (auto simp: backoffs_def dest!: in_set_takeD)
  then show ?thesis by (simp add: delays_schedule)
qed

text \<open>A client error after \<open>k\<close> retryable failures, for each operation.\<close>

lemma get_voices_client_error:
  assumes miss: "cache_get w = None"
    and k: "k < 4"
    and r: "\<forall>i<k. retryable (fst (net (sent w + i)))"
    and f: "fst (net (sent w + k)) = Response status body"
    and s: "400 \<le> status" "status < 500" "status \<noteq> 429"
  shows "get_voices net st w
           = (Inr [fallback_voice st], attempts net Get_voices (take (Suc k) (0.0 # backoffs)) w)
       \<and> sent (snd (get_voices net st w)) = sent w + k + 1
       \<and> trace (snd (get_voices net st w))
           = trace w @ schedule Get_voices (take (Suc k) (0.0 # backoffs))
       \<and> delays (schedule Get_voices (take (Suc k) (0.0 # backoffs))) = take k backoffs
       \<and> cache (snd (get_voices net st w)) = cache w
       \<and> (k = 0 \<longrightarrow> trace (snd (get_voices net st w)) = trace w @ [Sent Get_voices])"
proof -
  have len: "k < length (0.0 # backoffs)" using k by (simp only: length_backoffs)
  have lenk: "length (take (Suc k) (0.0 # backoffs)) = k + 1"
    using k by (simp add: backoffs_def)
  have "fatal (fst (net (sent w + k)))" unfolding f by (rule client_error_fatal [OF s])
  then have "get_voices_loop net st (0.0 # backoffs) w
      = (Fell_through, attempts net Get_voices (take (Suc k) (0.0 # backoffs)) w)"
    by (rule get_voices_loop_abort [OF len r])
  then have g: "get_voices net st w
      = (Inr [fallback_voice st], attempts net Get_voices (take (Suc k) (0.0 # backoffs)) w)"
    using miss by (simp add: get_voices_def del: get_voices_loop.simps attempts.simps)
  have c1: "sent (snd (get_voices net st w)) = sent w + k + 1"
    by (simp only: g snd_conv sent_attempts lenk add.assoc)
  have c3: "trace (snd (get_voices net st w))
           = trace w @ schedule Get_voices (take (Suc k) (0.0 # backoffs))"
    by (simp only: g snd_conv trace_attempts)
  have c5: "delays (schedule Get_voices (take (Suc k) (0.0 # backoffs))) = take k backoffs"
    by (rule delays_before_abort [OF k])
  have c6: "cache (snd (get_voices net st w)) = cache w"
    by (simp only: g snd_conv cache_attempts)
  have c7: "k = 0 \<longrightarrow> trace (snd (get_voices net st w)) = trace w @ [Sent Get_voices]"
    by (simp add: c3)
  from g c1 c3 c5 c6 c7 show ?thesis by blast
qed

lemma synthesize_client_error:
  assumes valid: "text \<noteq> []" "length text \<le> 5000"
    and k: "k < 4"
    and r: "\<forall>i<k. retryable (fst (net (sent w + i)))"
    and f: "fst (net (sent w + k)) = Response status content"
    and s: "400 \<le> status" "status < 500" "status \<noteq> 429"
  shows "synthesize_speech net text voice_id fmt w
           = (Inl (VoiceServiceError Synthesis_failed),
              attempts net (tts_request voice_id fmt) (take (Suc k) (0.0 # backoffs)) w)
       \<and> sent (snd (synthesize_speech net text voice_id fmt w)) = sent w + k + 1
       \<and> trace (snd (synthesize_speech net text voice_id fmt w))
           = trace w @ schedule (tts_request voice_id fmt) (take (Suc k) (0.0 # backoffs))
       \<and> delays (schedule (tts_request voice_id fmt) (take (Suc k) (0.0 # backoffs)))
           = take k backoffs
       \<and> (k = 0 \<longrightarrow> trace (snd (synthesize_speech net text voice_id fmt w))
                        = trace w @ [Sent (tts_request voice_id fmt)])"
proof -
  let ?req = "tts_request voice_id fmt"
  have len: "k < length (0.0 # backoffs)" using k by (simp only: length_backoffs)
  have lenk: "length (take (Suc k) (0.0 # backoffs)) = k + 1"
    using k by (simp add: backoffs_def)
  have "fatal (fst (net (sent w + k)))" unfolding f by (rule client_error_fatal [OF s])
  then have "synthesize_loop net ?req (0.0 # backoffs) w
      = (Fell_through, attempts net ?req (take (Suc k) (0.0 # backoffs)) w)"
    by (rule synthesize_loop_abort [OF len r])
  then have y: "synthesize_speech net text voice_id fmt w
      = (Inl (VoiceServiceError Synthesis_failed),
         attempts net ?req (take (Suc k) (0.0 # backoffs)) w)"
    using valid
    by (simp add: synthesize_speech_def tts_request_def Let_def
        del: synthesize_loop.simps attempts.simps)
  have c2: "sent (snd (synthesize_speech net text voice_id fmt w)) = sent w + k + 1"
    by (simp only: y snd_conv sent_attempts lenk add.assoc)
  have c4: "trace (snd (synthesize_speech net text voice_id fmt w))
           = trace w @ schedule ?req (take (Suc k) (0.0 # backoffs))"
    by (simp only: y snd_conv trace_attempts)
  have c5: "delays (schedule ?req (take (Suc k) (0.0 # backoffs))) = take k backoffs"
    by (rule delays_before_abort [OF k])
  have c6: "k = 0 \<longrightarrow> trace (snd (synthesize_speech net text voice_id fmt w))
                        = trace w @ [Sent ?req]"
    by (simp add: c4)
  from y c2 c4 c5 c6 show ?thesis by blast
qed

text \<open>
  C5. In both operations an attempt answered with a 4xx status other than 429 ends the
  loop at once, whatever is left of the schedule: the voice directory read (of a cache
  miss) gives the fall-back entry and leaves the cache as it was, and
  \<^verbatim>\<open>synthesize_speech\<close> (of a valid text, in any world) raises its service error, each
  after exactly the requests and the delays made so far. A first attempt answered with
  such a status is the only request, and nothing is slept.
\<close>

theorem client_error_aborts:
  "(cache_get gw = None \<and> gk < 4
      \<and> (\<forall>i<gk. retryable (fst (gnet (sent gw + i))))
      \<and> fst (gnet (sent gw + gk)) = Response gstatus body
      \<and> 400 \<le> gstatus \<and> gstatus < 500 \<and> gstatus \<noteq> 429
    \<longrightarrow> get_voices gnet gst gw
           = (Inr [fallback_voice gst],
              attempts gnet Get_voices (take (Suc gk) (0.0 # backoffs)) gw)
       \<and> sent (snd (get_voices gnet gst gw)) = sent gw + gk + 1
       \<and> trace (snd (get_voices gnet gst gw))
           = trace gw @ schedule Get_voices (take (Suc gk) (0.0 # backoffs))
       \<and> delays (schedule Get_voices (take (Suc gk) (0.0 # backoffs))) = take gk backoffs
       \<and> cache (snd (get_voices gnet gst gw)) = cache gw
       \<and> (gk = 0 \<longrightarrow> trace (snd (get_voices gnet gst gw)) = trace gw @ [Sent Get_voices]))
   \<and> (stext \<noteq> [] \<and> length stext \<le> 5000 \<and> sk < 4
      \<and> (\<forall>i<sk. retryable (fst (snet (sent sw + i))))
      \<and> fst (snet (sent sw + sk)) = Response sstatus content
      \<and> 400 \<le> sstatus \<and> sstatus < 500 \<and> sstatus \<noteq> 429
    \<longrightarrow> synthesize_speech snet stext svoice sfmt sw
           = (Inl (VoiceServiceError Synthesis_failed),
              attempts snet (tts_request svoice sfmt) (take (Suc sk) (0.0 # backoffs)) sw)
       \<and> sent (snd (synthesize_speech snet stext svoice sfmt sw)) = sent sw + sk + 1
       \<and> trace (snd (synthesize_speech snet stext svoice sfmt sw))
           = trace sw @ schedule (tts_request svoice sfmt) (take (Suc sk) (0.0 # backoffs))
       \<and> delays (schedule (tts_request svoice sfmt) (take (Suc sk) (0.0 # backoffs)))
           = take sk backoffs
       \<and> (sk = 0 \<longrightarrow> trace (snd (synthesize_speech snet stext svoice sfmt sw))
                        = trace sw @ [Sent (tts_request svoice sfmt)]))"
  using get_voices_client_error [of gw gk gnet gstatus body gst]
    synthesize_client_error [of stext sk snet sw sstatus content svoice sfmt]
  by blast

theorem client_error_aborts_witness:
  "fst (get_voices (always (Response 400 None)) settings0 world0) = Inr [fallback_voice settings0]
   \<and> sent (snd (get_voices (always (Response 400 None)) settings0 world0)) = 1
   \<and> trace (snd (get_voices (always (Response 400 None)) settings0 world0)) = [Sent Get_voices]
   \<and> cache_get fetched_world \<noteq> None
   \<and> fst (synthesize_speech (always (Response 400 [])) ''hello'' ''v1'' ''mp3'' fetched_world)
       = (Inl (VoiceServiceError Synthesis_failed) :: error + nat list)
   \<and> sent (snd (synthesize_speech (always (Response 400 ([] :: nat list))) ''hello'' ''v1'' ''mp3''
        fetched_world)) = 2
   \<and> trace (snd (synthesize_speech (always (Response 400 ([] :: nat list))) ''hello'' ''v1'' ''mp3''
        fetched_world))
       = [Sent Get_voices, Sent (Post_tts ''v1'' ''audio/mpeg'')]"
proof -
  have s0: "sent world0 = 0" and t0: "trace world0 = []" by (simp_all add: world0_def)
  have s1: "sent fetched_world = 1" and t1: "trace fetched_world = [Sent Get_voices]"
    by (simp_all add: fetched_world_def)
  have w: "cache_get fetched_world \<noteq> None"
    by (simp add: cache_get_def fetched_world_def)
  have q: "tts_request ''v1'' ''mp3'' = Post_tts ''v1'' ''audio/mpeg''"
    by (simp add: tts_request_def)
  have 1: "(400::int) \<le> 400" "(400::int) < 500" "(400::int) \<noteq> 429" by simp_all
  have 2: "(0::nat) < 4" by simp
  have 3: "\<forall>i<(0::nat). retryable (fst (always (Response 400 None) (sent world0 + i)))" by simp
  have 4: "fst (always (Response 400 None) (sent world0 + 0)) = Response 400 None"
    by (simp add: always_def)
  have 5: "\<forall>i<(0::nat). retryable (fst (always (Response 400 ([] :: nat list))
             (sent fetched_world + i)))" by simp
  have 6: "fst (always (Response 400 ([] :: nat list)) (sent fetched_world + 0)) = Response 400 []"
    by (simp add: always_def)
  have 7: "''hello'' \<noteq> []" "length ''hello'' \<le> 5000" by simp_all
  note t = client_error_aborts [where gw = world0 and gk = 0
      and gnet = "always (Response 400 None)" and gstatus = 400 and body = None
      and gst = settings0 and stext = "''hello''" and sk = 0
      and snet = "always (Response 400 ([] :: nat list))" and sw = fetched_world
      and sstatus = 400 and content = "[]" and svoice = "''v1''" and sfmt = "''mp3''"]
  have hg: "cache_get world0 = None \<and> (0::nat) < 4
      \<and> (\<forall>i<(0::nat). retryable (fst (always (Response 400 None) (sent world0 + i))))
      \<and> fst (always (Response 400 None) (sent world0 + 0)) = Response 400 None
      \<and> (400::int) \<le> 400 \<and> (400::int) < 500 \<and> (400::int) \<noteq> 429"
    using cache_get_world0 4 by simp
  have hs: "''hello'' \<noteq> [] \<and> length ''hello'' \<le> 5000 \<and> (0::nat) < 4
      \<and> (\<forall>i<(0::nat). retryable (fst (always (Response 400 ([] :: nat list))
             (sent fetched_world + i))))
      \<and> fst (always (Response 400 ([] :: nat list)) (sent fetched_world + 0)) = Response 400 []
      \<and> (400::int) \<le> 400 \<and> (400::int) < 500 \<and> (400::int) \<noteq> 429"
    using 6 by simp
  note g = t [THEN conjunct1, THEN mp, OF hg]
  note s = t [THEN conjunct2, THEN mp, OF hs]
  from g s w show ?thesis by (simp add: s0 t0 s1 t1 q del: attempts.simps)
qed

text \<open>
  C6. An empty text, and a text of more than 5000 characters, make
  \<^verbatim>\<open>synthesize_speech\<close> raise \<^verbatim>\<open>InvalidInputError\<close> with the world as it was: no
  request has been sent and nothing has been slept.
\<close>

theorem invalid_text_rejected:
  assumes "text = [] \<or> length text > 5000"
  shows "synthesize_speech net text voice_id fmt w
           = (Inl (InvalidInputError (if text = [] then Empty_text else Text_too_long)), w)
       \<and> snd (synthesize_speech net text voice_id fmt w) = w
       \<and> sent (snd (synthesize_speech net text voice_id fmt w)) = sent w
       \<and> trace (snd (synthesize_speech net text voice_id fmt w)) = trace w"
  using assms by (auto simp: synthesize_speech_def)

theorem invalid_text_rejected_witness:
  "synthesize_speech busy_then_audio '''' ''v1'' ''mp3'' world0
     = (Inl (InvalidInputError Empty_text), world0)
   \<and> synthesize_speech busy_then_audio (replicate 5001 CHR ''a'') ''v1'' ''mp3'' world0
       = (Inl (InvalidInputError Text_too_long), world0)"
proof -
  have 1: "('''' :: string) = [] \<or> length ('''' :: string) > 5000" by simp
  have 2: "replicate 5001 CHR ''a'' = [] \<or> length (replicate 5001 CHR ''a'') > 5000" by simp
  have 3: "replicate 5001 CHR ''a'' \<noteq> []" by (simp add: replicate_empty)
  from invalid_text_rejected [OF 1, of busy_then_audio "''v1''" "''mp3''" world0]
    invalid_text_rejected [OF 2, of busy_then_audio "''v1''" "''mp3''" world0] 3
  show ?thesis by (simp add: synthesize_speech_def)
qed

text \<open>Every reply is of exactly one class.\<close>

lemma reply_classes:
  "retryable rep \<or> fatal rep \<or> succeeded rep"
  "retryable rep \<Longrightarrow> \<not> fatal rep"
  "succeeded rep \<Longrightarrow> \<not> retryable rep \<and> \<not> fatal rep"
  by (cases rep; auto simp: is_success_def)+

lemma falls_shift:
  assumes "R 0" "\<not> F 0"
  shows "((\<forall>i<Suc n. R i) \<or> (\<exists>k<Suc n. (\<forall>i<k. R i) \<and> F k))
     \<longleftrightarrow> ((\<forall>i<n. R (Suc i)) \<or> (\<exists>k<n. (\<forall>i<k. R (Suc i)) \<and> F (Suc k)))"
  using assms by (simp add: All_less_Suc2 Ex_less_Suc2)

lemma falls_stop:
  assumes "\<not> R 0" "\<not> F 0"
  shows "\<not> ((\<forall>i<Suc n. R i) \<or> (\<exists>k<Suc n. (\<forall>i<k. R i) \<and> F k))"
  using assms by (simp add: All_less_Suc2 Ex_less_Suc2)

lemma falls_now:
  assumes "F 0"
  shows "(\<forall>i<Suc n. R i) \<or> (\<exists>k<Suc n. (\<forall>i<k. R i) \<and> F k)"
  using assms by (simp add: Ex_less_Suc2)

lemma synthesize_loop_falls_iff:
  "fst (synthesize_loop net req bs w) = Fell_through
     \<longleftrightarrow> (\<forall>i<length bs. retryable (fst (net (sent w + i))))
          \<or> (\<exists>k<length bs. (\<forall>i<k. retryable (fst (net (sent w + i))))
                \<and> fatal (fst (net (sent w + k))))"
proof (induction bs arbitrary: w)
  case Nil
  show ?case by simp
next
  case (Cons b bs)
  let ?R = "\<lambda>i. retryable (fst (net (sent w + i)))"
  let ?F = "\<lambda>k. fatal (fst (net (sent w + k)))"
  let ?w1 = "attempts net req [b] w"
  have ih: "fst (synthesize_loop net req bs ?w1) = Fell_through
     \<longleftrightarrow> (\<forall>i<length bs. ?R (Suc i)) \<or> (\<exists>k<length bs. (\<forall>i<k. ?R (Suc i)) \<and> ?F (Suc k))"
    using Cons.IH [of ?w1] by simp
  consider (retry) "?R 0" "\<not> ?F 0" | (fatal) "?F 0" | (ok) "\<not> ?R 0" "\<not> ?F 0" "succeeded (fst (net (sent w)))"
    using reply_classes [of "fst (net (sent w))"] by auto
  then show ?case
  proof cases
    case retry
    then have "synthesize_loop net req (b # bs) w = synthesize_loop net req bs ?w1"
      using synthesize_loop_retry [of net w req b bs] by simp
    then show ?thesis
      using ih falls_shift [of ?R ?F "length bs", OF retry] by simp
  next
    case fatal
    then have "synthesize_loop net req (b # bs) w = (Fell_through, ?w1)"
      using synthesize_loop_fatal [of net w req b bs] by simp
    then show ?thesis
      using falls_now [of ?F "length bs" ?R, OF fatal] by simp
  next
    case ok
    then obtain status content where rep: "fst (net (sent w)) = Response status content"
      and su: "is_success status"
      by (cases "fst (net (sent w))") auto
    have "synthesize_loop net req (b # bs) w = (Returned content, ?w1)"
      by (rule synthesize_loop_success [where net = net and w = w, OF rep su])
    then show ?thesis
      using falls_stop [of ?R ?F "length bs", OF ok(1,2)] by simp
  qed
qed

lemma synthesize_loop_never_raises: "fst (synthesize_loop net req bs w) \<noteq> Raised e"
proof (induction bs arbitrary: w)
  case Nil
  show ?case by simp
next
  case (Cons b bs)
  show ?case
    using Cons.IH [of "attempts net req [b] w"]
    by (cases "fst (net (sent w))")
       (auto simp add: synthesize_loop_step simp del: synthesize_loop.simps attempts.simps)
qed

lemma synthesize_speech_valid:
  assumes "text \<noteq> []" "length text \<le> 5000"
  shows "fst (synthesize_speech net text voice_id fmt w) =
     (case fst (synthesize_loop net
          (Post_tts voice_id (if fmt = ''mp3'' then ''audio/mpeg'' else ''application/json''))
          (0.0 # backoffs) w) of
        Returned content \<Rightarrow> Inr content
      | Raised e \<Rightarrow> Inl e
      | Fell_through \<Rightarrow> Inl (VoiceServiceError Synthesis_failed))"
  using assms
  by (simp add: synthesize_speech_def Let_def split: prod.split loop_exit.split
      del: synthesize_loop.simps)

lemma synthesize_speech_service_error_iff:
  "fst (synthesize_speech net text voice_id fmt w) = Inl (VoiceServiceError m)
     \<longleftrightarrow> m = Synthesis_failed \<and> text \<noteq> [] \<and> length text \<le> 5000
          \<and> fst (synthesize_loop net
                (Post_tts voice_id (if fmt = ''mp3'' then ''audio/mpeg'' else ''application/json''))
                (0.0 # backoffs) w) = Fell_through"
proof (cases "text \<noteq> [] \<and> length text \<le> 5000")
  case True
  let ?l = "fst (synthesize_loop net
                (Post_tts voice_id (if fmt = ''mp3'' then ''audio/mpeg'' else ''application/json''))
                (0.0 # backoffs) w)"
  have "?l \<noteq> Raised (VoiceServiceError m)" by (rule synthesize_loop_never_raises)
  then show ?thesis
    using True synthesize_speech_valid [of "text" net voice_id fmt w]
    by (cases ?l) (auto simp del: synthesize_loop.simps)
next
  case False
  then show ?thesis by (auto simp: synthesize_speech_def)
qed

text \<open>
  C9, as the code has it. \<^verbatim>\<open>synthesize_speech\<close> raises the plain service error exactly
  when the text is valid and the loop ends without a successful attempt: after four
  attempts that all failed retryably (429, 5xx, transport error), or earlier, at the first
  attempt answered with a status that is neither a 2xx, nor 429, nor a 5xx. The error
  carries the one fixed message, whatever the attempts were answered with; the only other
  errors of the function are the two input errors.
\<close>

theorem service_error_when_loop_fails:
  "(fst (synthesize_speech net text voice_id fmt w) = Inl (VoiceServiceError Synthesis_failed)
      \<longleftrightarrow> text \<noteq> [] \<and> length text \<le> 5000
           \<and> ((\<forall>i<4. retryable (fst (net (sent w + i))))
              \<or> (\<exists>k<4. (\<forall>i<k. retryable (fst (net (sent w + i))))
                    \<and> fatal (fst (net (sent w + k))))))
   \<and> (\<forall>m. fst (synthesize_speech net text voice_id fmt w) = Inl (VoiceServiceError m)
          \<longrightarrow> m = Synthesis_failed)
   \<and> (\<forall>e. fst (synthesize_speech net text voice_id fmt w) = Inl e
          \<longrightarrow> e = InvalidInputError Empty_text \<or> e = InvalidInputError Text_too_long
              \<or> e = VoiceServiceError Synthesis_failed)
   \<and> (text \<noteq> [] \<and> length text \<le> 5000 \<and> (\<forall>i<4. retryable (fst (net (sent w + i))))
          \<longrightarrow> sent (snd (synthesize_speech net text voice_id fmt w)) = sent w + 4)"
proof -
  let ?req = "Post_tts voice_id (if fmt = ''mp3'' then ''audio/mpeg'' else ''application/json'')"
  let ?l = "synthesize_loop net ?req (0.0 # backoffs) w"
  have a: "fst (synthesize_speech net text voice_id fmt w) = Inl (VoiceServiceError Synthesis_failed)
      \<longleftrightarrow> text \<noteq> [] \<and> length text \<le> 5000
           \<and> ((\<forall>i<4. retryable (fst (net (sent w + i))))
              \<or> (\<exists>k<4. (\<forall>i<k. retryable (fst (net (sent w + i))))
                    \<and> fatal (fst (net (sent w + k)))))"
    using synthesize_loop_falls_iff [of net ?req "0.0 # backoffs" w]
    by (simp only: synthesize_speech_service_error_iff length_backoffs) blast
  have b: "\<forall>m. fst (synthesize_speech net text voice_id fmt w) = Inl (VoiceServiceError m)
          \<longrightarrow> m = Synthesis_failed"
    by (simp only: synthesize_speech_service_error_iff) blast
  have c: "\<forall>e. fst (synthesize_speech net text voice_id fmt w) = Inl e
          \<longrightarrow> e = InvalidInputError Empty_text \<or> e = InvalidInputError Text_too_long
              \<or> e = VoiceServiceError Synthesis_failed"
  proof (cases "text \<noteq> [] \<and> length text \<le> 5000")
    case True
    have "fst ?l \<noteq> Raised e" for e by (rule synthesize_loop_never_raises)
    then show ?thesis
      using True synthesize_speech_valid [of "text" net voice_id fmt w]
      by (cases "fst ?l") (auto simp del: synthesize_loop.simps)
  next
    case False
    then show ?thesis by (auto simp: synthesize_speech_def)
  qed
  have d: "text \<noteq> [] \<and> length text \<le> 5000 \<and> (\<forall>i<4. retryable (fst (net (sent w + i))))
          \<longrightarrow> sent (snd (synthesize_speech net text voice_id fmt w)) = sent w + 4"
  proof (intro impI, elim conjE)
    assume v: "text \<noteq> []" "length text \<le> 5000"
      and r: "\<forall>i<4. retryable (fst (net (sent w + i)))"
    have "\<forall>i<length (0.0 # backoffs). retryable (fst (net (sent w + i)))"
      using r by (simp only: length_backoffs)
    then have "?l = (Fell_through, attempts net ?req (0.0 # backoffs) w)"
      by (rule synthesize_loop_exhaust)
    then have "snd (synthesize_speech net text voice_id fmt w) = attempts net ?req (0.0 # backoffs) w"
      using v by (simp add: synthesize_speech_def Let_def del: synthesize_loop.simps attempts.simps)
    then show "sent (snd (synthesize_speech net text voice_id fmt w)) = sent w + 4"
      by (simp only: sent_attempts length_backoffs)
  qed
  from a b c d show ?thesis by blast
qed

theorem service_error_when_loop_fails_witness:
  "fst (synthesize_speech (always (Response 503 ([] :: nat list))) ''hello'' ''v1'' ''mp3'' world0)
     = Inl (VoiceServiceError Synthesis_failed)
   \<and> sent (snd (synthesize_speech (always (Response 503 ([] :: nat list))) ''hello'' ''v1'' ''mp3'' world0)) = 4"
proof -
  have r: "\<forall>i<4. retryable (fst (always (Response 503 ([] :: nat list)) (sent world0 + i)))"
    by (simp add: always_def)
  have v: "''hello'' \<noteq> []" "length ''hello'' \<le> 5000" by simp_all
  have s0: "sent world0 = 0" by (simp add: world0_def)
  from service_error_when_loop_fails
         [of "always (Response 503 ([] :: nat list))" "''hello''" "''v1''" "''mp3''" world0] r v
  show ?thesis by (simp add: s0)
qed

theorem service_error_before_fourth_attempt:
  "fst (synthesize_speech (always (Response 404 ([] :: nat list))) ''hi'' ''v1'' ''mp3'' world0)
     = Inl (VoiceServiceError Synthesis_failed)
   \<and> sent (snd (synthesize_speech (always (Response 404 ([] :: nat list))) ''hi'' ''v1'' ''mp3'' world0)) = 1"
  by (simp add: synthesize_speech_def always_def world0_def http_request_def backoffs_def
      is_success_def)

lemma clock_cache_set [simp]: "clock (cache_set v w) = clock w"
  by (simp add: cache_set_def)

lemma cache_cache_set [simp]:
  "cache (cache_set v w) = (cache w)\<lparr>cvalue := Some v, ts := clock w\<rparr>"
  by (simp add: cache_set_def)

lemma get_voices_loop_returned:
  assumes "get_voices_loop net st bs w = (Returned vs, w1)"
  shows "cache w1 = (cache w)\<lparr>cvalue := Some vs, ts := clock w1\<rparr>"
  using assms
proof (induction bs arbitrary: w)
  case Nil
  then show ?case by simp
next
  case (Cons b bs)
  have ih: "get_voices_loop net st bs (attempts net Get_voices [b] w) = (Returned vs, w1)
      \<Longrightarrow> cache w1 = (cache w)\<lparr>cvalue := Some vs, ts := clock w1\<rparr>"
    using Cons.IH [of "attempts net Get_voices [b] w"] by simp
  show ?case
    using Cons.prems ih
    by (cases "fst (net (sent w))")
       (auto simp add: get_voices_loop_step split: if_splits option.splits sum.splits
             simp del: get_voices_loop.simps attempts.simps)
qed

lemma get_voices_loop_sent_mono: "sent w \<le> sent (snd (get_voices_loop net st bs w))"
proof (induction bs arbitrary: w)
  case Nil
  show ?case by simp
next
  case (Cons b bs)
  have "sent w < sent (attempts net Get_voices [b] w)" by simp
  moreover have "sent (attempts net Get_voices [b] w)
      \<le> sent (snd (get_voices_loop net st bs (attempts net Get_voices [b] w)))"
    by (rule Cons.IH)
  ultimately show ?case
    by (cases "fst (net (sent w))")
       (auto simp add: get_voices_loop_step split: option.splits sum.splits
             simp del: get_voices_loop.simps attempts.simps)
qed

lemma get_voices_loop_sends:
  "sent w < sent (snd (get_voices_loop net st (b # bs) w))"
proof -
  have 1: "sent w < sent (attempts net Get_voices [b] w)" by simp
  have 2: "sent (attempts net Get_voices [b] w)
      \<le> sent (snd (get_voices_loop net st bs (attempts net Get_voices [b] w)))"
    by (rule get_voices_loop_sent_mono)
  show ?thesis
    using 1 2
    by (cases "fst (net (sent w))")
       (auto simp add: get_voices_loop_step split: option.splits sum.splits
             simp del: get_voices_loop.simps attempts.simps)
qed

lemma get_voices_loop_ttl: "ttl (cache (snd (get_voices_loop net st bs w))) = ttl (cache w)"
proof (induction bs arbitrary: w)
  case Nil
  show ?case by simp
next
  case (Cons b bs)
  show ?case
    using Cons.IH [of "attempts net Get_voices [b] w"]
    by (cases "fst (net (sent w))")
       (auto simp add: get_voices_loop_step split: option.splits sum.splits
             simp del: get_voices_loop.simps attempts.simps)
qed

lemma cache_get_iff:
  "cache_get w = Some vs
     \<longleftrightarrow> cvalue (cache w) = Some vs \<and> clock w - ts (cache w) \<le> ttl (cache w)"
  by (auto simp: cache_get_def)

lemma get_voices_hit:
  assumes "cache_get w = Some vs"
  shows "get_voices net st w = (Inr vs, w)"
  using assms by (simp add: get_voices_def)

lemma get_voices_miss_sends:
  assumes "cache_get w = None"
  shows "sent w < sent (snd (get_voices net st w))"
proof -
  obtain r w' where h: "get_voices_loop net st (0.0 # backoffs) w = (r, w')"
    by (cases "get_voices_loop net st (0.0 # backoffs) w")
  have "sent w < sent w'"
    using get_voices_loop_sends [of w net st "0.0" backoffs] h by simp
  then show ?thesis
    using assms h by (cases r) (simp_all add: get_voices_def del: get_voices_loop.simps)
qed

lemma get_voices_ttl: "ttl (cache (snd (get_voices net st w))) = ttl (cache w)"
proof (cases "cache_get w")
  case (Some vs)
  then show ?thesis by (simp add: get_voices_def)
next
  case None
  obtain r w' where h: "get_voices_loop net st (0.0 # backoffs) w = (r, w')"
    by (cases "get_voices_loop net st (0.0 # backoffs) w")
  have "ttl (cache w') = ttl (cache w)"
    using get_voices_loop_ttl [of net st "0.0 # backoffs" w] h by simp
  then show ?thesis
    using None h by (cases r) (simp_all add: get_voices_def del: get_voices_loop.simps)
qed

text \<open>
  C3. The cache's \<^verbatim>\<open>get\<close> gives the stored list exactly when one is stored and
  \<open>now - ts \<le> ttl\<close>; the module's cache has \<open>ttl = 600\<close> and \<^verbatim>\<open>get_voices\<close> never
  changes it. After a fetch has succeeded, a later call (the cache as that fetch left it)
  no more than 600 seconds after it returns the same list and leaves the world as it is,
  so it sends nothing; a call more than 600 seconds after it sends a new request.
\<close>

theorem voices_cache_ttl:
  assumes miss: "cache_get w = None"
    and fetch: "get_voices_loop net st (0.0 # backoffs) w = (Returned vs, w1)"
    and ttl: "ttl (cache w) = 600"
    and later: "cache w2 = cache w1"
  shows "(\<forall>u us. cache_get u = Some us
            \<longleftrightarrow> cvalue (cache u) = Some us \<and> clock u - ts (cache u) \<le> ttl (cache u))
       \<and> ttl voices_cache0 = 600
       \<and> get_voices net st w = (Inr vs, w1)
       \<and> sent w < sent w1
       \<and> cache w1 = \<lparr>cvalue = Some vs, ts = clock w1, ttl = 600\<rparr>
       \<and> (clock w2 - clock w1 \<le> 600 \<longrightarrow> get_voices net2 st w2 = (Inr vs, w2))
       \<and> (clock w2 - clock w1 > 600 \<longrightarrow> sent w2 < sent (snd (get_voices net2 st w2)))
       \<and> ttl (cache (snd (get_voices net2 st w2))) = 600"
proof -
  have g: "get_voices net st w = (Inr vs, w1)"
    using miss fetch by (simp add: get_voices_def del: get_voices_loop.simps)
  have s: "sent w < sent w1"
    using get_voices_loop_sends [of w net st "0.0" backoffs] fetch by simp
  have c: "cache w1 = (cache w)\<lparr>cvalue := Some vs, ts := clock w1\<rparr>"
    by (rule get_voices_loop_returned [OF fetch])
  then have c': "cache w1 = \<lparr>cvalue = Some vs, ts = clock w1, ttl = 600\<rparr>"
    using ttl by (cases "cache w") simp
  have c2: "cvalue (cache w2) = Some vs" "ts (cache w2) = clock w1" "ttl (cache w2) = 600"
    using later c' by simp_all
  have hit: "clock w2 - clock w1 \<le> 600 \<longrightarrow> get_voices net2 st w2 = (Inr vs, w2)"
  proof
    assume "clock w2 - clock w1 \<le> 600"
    then have "cache_get w2 = Some vs" using c2 by (simp add: cache_get_iff)
    then show "get_voices net2 st w2 = (Inr vs, w2)" by (rule get_voices_hit)
  qed
  have stale: "clock w2 - clock w1 > 600 \<longrightarrow> sent w2 < sent (snd (get_voices net2 st w2))"
  proof
    assume "clock w2 - clock w1 > 600"
    then have "cache_get w2 = None" using c2 by (simp add: cache_get_def)
    then show "sent w2 < sent (snd (get_voices net2 st w2))" by (rule get_voices_miss_sends)
  qed
  have t: "ttl (cache (snd (get_voices net2 st w2))) = 600"
    using c2 by (simp add: get_voices_ttl)
  have z: "ttl voices_cache0 = 600" by (simp add: voices_cache0_def)
  from cache_get_iff g s c' hit stale t z show ?thesis by blast
qed

lemma directory_fetch:
  "get_voices_loop (always (Response 200 (Some directory_json))) settings0 (0.0 # backoffs) world0
     = (Returned [\<lparr>id' = JStr ''v1'', name = JStr ''Ann'', labels = JNull\<rparr>], fetched_world)"
  by (simp add: get_voices_loop_step always_def world0_def is_success_def directory_voices
      fetched_world_def cache_set_def http_request_def voices_cache0_def
      del: get_voices_loop.simps)

theorem voices_cache_ttl_witness:
  "get_voices (always (Response 200 (Some directory_json))) settings0 world0
     = (Inr [\<lparr>id' = JStr ''v1'', name = JStr ''Ann'', labels = JNull\<rparr>], fetched_world)
   \<and> get_voices (always TransportError) settings0 (fetched_world\<lparr>clock := 600.1\<rparr>)
       = (Inr [\<lparr>id' = JStr ''v1'', name = JStr ''Ann'', labels = JNull\<rparr>],
          fetched_world\<lparr>clock := 600.1\<rparr>)
   \<and> sent (fetched_world\<lparr>clock := 601\<rparr>)
       < sent (snd (get_voices (always TransportError) settings0 (fetched_world\<lparr>clock := 601\<rparr>)))"
proof -
  have t: "ttl (cache world0) = 600" by (simp add: world0_def voices_cache0_def)
  have l1: "cache (fetched_world\<lparr>clock := 600.1\<rparr>) = cache fetched_world" by simp
  have l2: "cache (fetched_world\<lparr>clock := 601\<rparr>) = cache fetched_world" by simp
  have c: "clock fetched_world = 0.1" by (simp add: fetched_world_def)
  from voices_cache_ttl [OF cache_get_world0 directory_fetch t l1, of "always TransportError"]
    voices_cache_ttl [OF cache_get_world0 directory_fetch t l2, of "always TransportError"]
  show ?thesis by (simp add: c)
qed

text \<open>
  When every attempt of the voice directory read fails in a way its handlers catch, the
  fall-back entry is returned and the cache is left as it was.
\<close>

lemma get_voices_total_failure:
  assumes miss: "cache_get w = None"
    and fail: "(\<forall>i<4. retryable (fst (net (sent w + i))))
             \<or> (\<exists>k<4. (\<forall>i<k. retryable (fst (net (sent w + i))))
                   \<and> fatal (fst (net (sent w + k))))"
  shows "fst (get_voices net st w) = Inr [fallback_voice st]
       \<and> cache (snd (get_voices net st w)) = cache w"
proof -
  have "\<exists>bs. get_voices_loop net st (0.0 # backoffs) w
            = (Fell_through, attempts net Get_voices bs w)"
    using fail
  proof
    assume "\<forall>i<4. retryable (fst (net (sent w + i)))"
    then have "\<forall>i<length (0.0 # backoffs). retryable (fst (net (sent w + i)))"
      by (simp only: length_backoffs)
    then show ?thesis using get_voices_loop_exhaust by blast
  next
    assume "\<exists>k<4. (\<forall>i<k. retryable (fst (net (sent w + i)))) \<and> fatal (fst (net (sent w + k)))"
    then obtain k where k: "k < length (0.0 # backoffs)"
      and r: "\<forall>i<k. retryable (fst (net (sent w + i)))"
      and f: "fatal (fst (net (sent w + k)))"
      by (auto simp only: length_backoffs)
    show ?thesis using get_voices_loop_abort [OF k r f] by blast
  qed
  then obtain bs where "get_voices_loop net st (0.0 # backoffs) w
            = (Fell_through, attempts net Get_voices bs w)" ..
  then show ?thesis
    using miss by (simp add: get_voices_def del: get_voices_loop.simps attempts.simps)
qed

text \<open>
  C2. A 2xx reply whose body is not JSON, or is JSON other than an object, makes
  \<^verbatim>\<open>get_voices\<close> raise: \<^verbatim>\<open>resp.json()\<close> and \<^verbatim>\<open>data.get\<close> raise inside the
  \<^verbatim>\<open>try\<close>, and none of its three handlers catches a \<^verbatim>\<open>ValueError\<close> or an
  \<^verbatim>\<open>AttributeError\<close>.
\<close>

theorem get_voices_raises_on_malformed_body:
  "fst (get_voices (always (Response 200 None)) settings0 world0) = Inl JSONDecodeError
   \<and> sent (snd (get_voices (always (Response 200 None)) settings0 world0)) = 1
   \<and> fst (get_voices (always (Response 200 (Some (JArr [])))) settings0 world0) = Inl AttributeError"
proof -
  have s0: "sent world0 = 0" by (simp add: world0_def)
  have 1: "get_voices_loop (always (Response 200 None)) settings0 (0.0 # backoffs) world0
      = (Raised JSONDecodeError,
         attempts (always (Response 200 None) :: json option network) Get_voices [0.0] world0)"
    by (simp add: get_voices_loop_step always_def s0 is_success_def
        del: get_voices_loop.simps attempts.simps)
  have 2: "get_voices_loop (always (Response 200 (Some (JArr [])))) settings0 (0.0 # backoffs) world0
      = (Raised AttributeError,
         attempts (always (Response 200 (Some (JArr []))) :: json option network)
           Get_voices [0.0] world0)"
    by (simp add: get_voices_loop_step always_def s0 is_success_def voices_of_data_def
        del: get_voices_loop.simps attempts.simps)
  from 1 2 show ?thesis
    by (simp add: get_voices_def cache_get_world0 s0 del: get_voices_loop.simps attempts.simps)
qed

text \<open>
  C8, as stated, fails: an entry without identifier fields is normalised to a voice whose
  id is \<^verbatim>\<open>None\<close>, and an empty \<^verbatim>\<open>id\<close> field is passed on as it is.
\<close>

theorem voice_id_may_be_none:
  "voices_of_data settings0 (JObj [(''voices'', JArr [JObj [(''name'', JStr ''Ann'')]])])
     = Inr [\<lparr>id' = JNull, name = JStr ''Ann'', labels = JNull\<rparr>]
   \<and> normalize_entry (JObj [(''id'', JStr '''')])
       = Inr \<lparr>id' = JStr '''', name = JStr ''Unnamed'', labels = JNull\<rparr>"
  by (simp add: voices_of_data_def dict_get_def py_or_def)

lemma normalize_items_all2:
  "normalize_items entries = Inr xs \<Longrightarrow> list_all2 (\<lambda>e x. normalize_entry e = Inr x) entries xs"
  by (induction entries arbitrary: xs) (auto split: sum.splits)

text \<open>
  C8, as the code has it. A dict entry is normalised to a voice whose id is the entry's
  \<^verbatim>\<open>voice_id\<close> when that is truthy and else its \<^verbatim>\<open>id\<close> field (\<^verbatim>\<open>None\<close> when
  absent). So the id is a non-empty string exactly when \<^verbatim>\<open>voice_id\<close> is a non-empty
  string, or \<^verbatim>\<open>voice_id\<close> is falsy or absent and \<^verbatim>\<open>id\<close> is a non-empty string. The
  name is the entry's when truthy and else \<open>Unnamed\<close>, the labels are the entry's when
  truthy and else \<^verbatim>\<open>None\<close>; every voice of a fetched list is such a normalised entry,
  in the order of the response.
\<close>

theorem normalized_voice_fields:
  "(\<exists>x. normalize_entry (JObj v) = Inr x
       \<and> id' x = (if truthy (dict_get v ''voice_id'') then dict_get v ''voice_id''
                  else dict_get v ''id'')
       \<and> ((\<exists>s. s \<noteq> [] \<and> id' x = JStr s)
            \<longleftrightarrow> (\<exists>s. s \<noteq> [] \<and> (dict_get v ''voice_id'' = JStr s
                    \<or> (\<not> truthy (dict_get v ''voice_id'') \<and> dict_get v ''id'' = JStr s))))
       \<and> name x = (if truthy (dict_get v ''name'') then dict_get v ''name'' else JStr ''Unnamed'')
       \<and> truthy (name x)
       \<and> labels x = (if truthy (dict_get v ''labels'') then dict_get v ''labels'' else JNull))
   \<and> (\<forall>entries xs. normalize_items entries = Inr xs
         \<longrightarrow> list_all2 (\<lambda>e x. normalize_entry e = Inr x) entries xs)"
proof -
  have "(\<exists>s. s \<noteq> [] \<and> py_or (dict_get v ''voice_id'') (dict_get v ''id'') = JStr s)
            \<longleftrightarrow> (\<exists>s. s \<noteq> [] \<and> (dict_get v ''voice_id'' = JStr s
                    \<or> (\<not> truthy (dict_get v ''voice_id'') \<and> dict_get v ''id'' = JStr s)))"
    by (auto simp: py_or_def)
  moreover have "truthy (py_or (dict_get v ''name'') (JStr ''Unnamed''))"
    by (simp add: py_or_def)
  ultimately show ?thesis
    using normalize_items_all2 by (simp add: py_or_def)
qed

theorem normalized_voice_fields_witness:
  "normalize_items [JObj [(''voice_id'', JStr ''v1''), (''id'', JStr ''x'')],
                    JObj [(''voice_id'', JStr ''''), (''id'', JStr ''v2''), (''labels'', JObj [])]]
     = Inr [\<lparr>id' = JStr ''v1'', name = JStr ''Unnamed'', labels = JNull\<rparr>,
            \<lparr>id' = JStr ''v2'', name = JStr ''Unnamed'', labels = JNull\<rparr>]
   \<and> list_all2 (\<lambda>e x. normalize_entry e = Inr x)
       [JObj [(''voice_id'', JStr ''v1''), (''id'', JStr ''x'')],
        JObj [(''voice_id'', JStr ''''), (''id'', JStr ''v2''), (''labels'', JObj [])]]
       [\<lparr>id' = JStr ''v1'', name = JStr ''Unnamed'', labels = JNull\<rparr>,
        \<lparr>id' = JStr ''v2'', name = JStr ''Unnamed'', labels = JNull\<rparr>]"
proof -
  have e: "normalize_items [JObj [(''voice_id'', JStr ''v1''), (''id'', JStr ''x'')],
                    JObj [(''voice_id'', JStr ''''), (''id'', JStr ''v2''), (''labels'', JObj [])]]
     = Inr [\<lparr>id' = JStr ''v1'', name = JStr ''Unnamed'', labels = JNull\<rparr>,
            \<lparr>id' = JStr ''v2'', name = JStr ''Unnamed'', labels = JNull\<rparr>]"
    by (simp add: dict_get_def py_or_def)
  from normalized_voice_fields [of "[]"] e show ?thesis by blast
qed

end
